theory Spec2Isabelle
  imports Main
begin

section \<open>Agent protocol data (agent/models.py)\<close>

datatype AgentStatus = ONLINE | OFFLINE | BUSY | ERROR

datatype AgentCommand = RUN_TEST_CASE | RUN_MODULE | RUN_PROJECT | PING | SHUTDOWN

text \<open>
  \<^verbatim>\<open>datetime\<close> values are readings of a clock, kept as natural numbers; a
  \<^verbatim>\<open>Dict[str, Any]\<close> payload is an association list of strings.
\<close>

type_synonym datetime = nat

type_synonym payload = "(string \<times> string) list"

record AgentInfo =
  agent_id :: string
  agent_name :: string
  hostname :: string
  ip_address :: string
  agent_status :: AgentStatus
  last_seen :: datetime
  capabilities :: "string list"
  current_task :: "string option"
  created_at :: datetime

record AgentCommandRequest =
  command :: AgentCommand
  request_payload :: payload
  timeout :: int

record AgentCommandResponse =
  success :: bool
  message :: string
  result :: "payload option"
  error :: "string option"

section \<open>The agent registry (agent/manager.py)\<close>

text \<open>
  The three dictionaries of \<^verbatim>\<open>AgentManager\<close>. An \<^verbatim>\<open>asyncio.Queue\<close> is unbounded
  and first-in first-out: a list, \<^verbatim>\<open>put\<close> appends at the end and \<^verbatim>\<open>get\<close> takes the head.
\<close>

record AgentManager =
  agents :: "string \<rightharpoonup> AgentInfo"
  agent_connections :: "string \<rightharpoonup> AgentCommandResponse list"
  command_queues :: "string \<rightharpoonup> AgentCommandRequest list"

definition init_manager :: AgentManager where
  "init_manager =
     \<lparr>agents = Map.empty, agent_connections = Map.empty, command_queues = Map.empty\<rparr>"

text \<open>
  \<^verbatim>\<open>register_agent\<close>: the id is \<^verbatim>\<open>str(uuid.uuid4())\<close>, a draw from the
  operating system's random source, so the drawn string \<open>uuid\<close> is an argument; \<open>now\<close> is the
  reading of \<^verbatim>\<open>datetime.now()\<close>. The result is the id and the updated manager.
\<close>

definition register_agent ::
  "AgentManager \<Rightarrow> AgentInfo \<Rightarrow> string \<Rightarrow> datetime \<Rightarrow> string \<times> AgentManager" where
  "register_agent m agent_info uuid now =
     (let info = agent_info\<lparr>agent_id := uuid, created_at := now, last_seen := now,
                            agent_status := ONLINE\<rparr>
      in (uuid, m\<lparr>agents := (agents m)(uuid \<mapsto> info),
                  agent_connections := (agent_connections m)(uuid \<mapsto> []),
                  command_queues := (command_queues m)(uuid \<mapsto> [])\<rparr>))"

text \<open>
  \<^verbatim>\<open>unregister_agent\<close>: three guarded \<^verbatim>\<open>del\<close> statements. Deleting a key of a map
  that does not hold it leaves the map as it is, which is what each guard does.
\<close>

definition del_key :: "('k \<rightharpoonup> 'v) \<Rightarrow> 'k \<Rightarrow> ('k \<rightharpoonup> 'v)" where
  "del_key d k = (if k \<in> dom d then d(k := None) else d)"

definition unregister_agent :: "AgentManager \<Rightarrow> string \<Rightarrow> AgentManager" where
  "unregister_agent m aid =
     m\<lparr>agents := del_key (agents m) aid,
       agent_connections := del_key (agent_connections m) aid,
       command_queues := del_key (command_queues m) aid\<rparr>"

definition update_agent_status ::
  "AgentManager \<Rightarrow> string \<Rightarrow> AgentStatus \<Rightarrow> datetime \<Rightarrow> AgentManager" where
  "update_agent_status m aid st now =
     (case agents m aid of
        None \<Rightarrow> m
      | Some info \<Rightarrow>
          m\<lparr>agents := (agents m)(aid \<mapsto> info\<lparr>agent_status := st, last_seen := now\<rparr>)\<rparr>)"

definition get_agent :: "AgentManager \<Rightarrow> string \<Rightarrow> AgentInfo option" where
  "get_agent m aid = agents m aid"

definition status_of :: "AgentManager \<Rightarrow> string \<Rightarrow> AgentStatus option" where
  "status_of m aid = map_option agent_status (get_agent m aid)"

subsection \<open>Dispatching a command: \<^verbatim>\<open>send_command\<close>\<close>

definition is_execution_command :: "AgentCommandRequest \<Rightarrow> bool" where
  "is_execution_command c \<longleftrightarrow> command c \<in> set [RUN_TEST_CASE, RUN_MODULE, RUN_PROJECT]"

definition not_found_response :: AgentCommandResponse where
  "not_found_response =
     \<lparr>success = False, message = ''Agent not found or not connected'', result = None,
      error = Some ''Agent not found''\<rparr>"

definition timeout_response :: AgentCommandResponse where
  "timeout_response =
     \<lparr>success = False, message = ''Command timeout'', result = None,
      error = Some ''Timeout waiting for agent response''\<rparr>"

text \<open>
  The response built by the outer \<^verbatim>\<open>except Exception\<close> handler; its error text is
  \<^verbatim>\<open>str(e)\<close>, which for the \<^verbatim>\<open>KeyError\<close> of a missing queue is the key in quotes.
\<close>

definition failed_response :: "string \<Rightarrow> AgentCommandResponse" where
  "failed_response aid =
     \<lparr>success = False, message = ''Failed to send command'', result = None,
      error = Some ([CHR 0x27] @ aid @ [CHR 0x27])\<rparr>"

text \<open>
  The first half of \<^verbatim>\<open>send_command\<close>, up to the suspension on the response queue:
  the status update for an execution command, then the \<^verbatim>\<open>put\<close> on the command queue.
  The caller has checked that the agent has a command queue.
\<close>

definition mark_busy ::
  "AgentManager \<Rightarrow> string \<Rightarrow> AgentCommandRequest \<Rightarrow> datetime \<Rightarrow> AgentManager" where
  "mark_busy m aid c now =
     (if is_execution_command c then update_agent_status m aid BUSY now else m)"

definition put_command ::
  "AgentManager \<Rightarrow> string \<Rightarrow> AgentCommandRequest \<Rightarrow> AgentManager" where
  "put_command m aid c =
     (case command_queues m aid of
        None \<Rightarrow> m
      | Some q \<Rightarrow> m\<lparr>command_queues := (command_queues m)(aid \<mapsto> q @ [c])\<rparr>)"

definition dispatch_phase ::
  "AgentManager \<Rightarrow> string \<Rightarrow> AgentCommandRequest \<Rightarrow> datetime \<Rightarrow> AgentManager" where
  "dispatch_phase m aid c now = put_command (mark_busy m aid c now) aid c"

text \<open>
  \<^verbatim>\<open>asyncio.wait_for(self.agent_connections[agent_id].get(), timeout=...)\<close>. The
  subscript raises \<^verbatim>\<open>KeyError\<close> when the agent has no response queue. A queued response
  is taken at once. On an empty queue the caller is suspended; whether a response is put
  before the deadline is the environment's choice \<open>arrival\<close>: \<open>Some r\<close> when
  \<^verbatim>\<open>handle_agent_response\<close> delivers \<open>r\<close> in time, \<open>None\<close> when the deadline passes.
\<close>

datatype wait_error = KeyError | TimeoutError

definition wait_for_response ::
  "AgentManager \<Rightarrow> string \<Rightarrow> AgentCommandResponse option \<Rightarrow>
     (wait_error + AgentCommandResponse) \<times> AgentManager" where
  "wait_for_response m aid arrival =
     (case agent_connections m aid of
        None \<Rightarrow> (Inl KeyError, m)
      | Some [] \<Rightarrow>
          (case arrival of None \<Rightarrow> (Inl TimeoutError, m) | Some r \<Rightarrow> (Inr r, m))
      | Some (r # rs) \<Rightarrow>
          (Inr r, m\<lparr>agent_connections := (agent_connections m)(aid \<mapsto> rs)\<rparr>))"

text \<open>
  The \<^verbatim>\<open>try\<close> block with its two handlers, after the dispatch: \<open>now\<close> is the clock
  reading when the wait ends.
\<close>

definition await_phase ::
  "AgentManager \<Rightarrow> string \<Rightarrow> AgentCommandResponse option \<Rightarrow> datetime \<Rightarrow>
     AgentCommandResponse \<times> AgentManager" where
  "await_phase m aid arrival now =
     (case wait_for_response m aid arrival of
        (Inr response, m') \<Rightarrow> (response, m')
      | (Inl TimeoutError, m') \<Rightarrow> (timeout_response, update_agent_status m' aid ERROR now)
      | (Inl KeyError, m') \<Rightarrow> (failed_response aid, update_agent_status m' aid ERROR now))"

text \<open>The \<^verbatim>\<open>finally\<close> block: it runs after either handler and after the normal return.\<close>

definition finally_phase ::
  "AgentManager \<Rightarrow> string \<Rightarrow> AgentCommandRequest \<Rightarrow> datetime \<Rightarrow> AgentManager" where
  "finally_phase m aid c now =
     (if is_execution_command c then update_agent_status m aid ONLINE now else m)"

definition send_command ::
  "AgentManager \<Rightarrow> string \<Rightarrow> AgentCommandRequest \<Rightarrow> AgentCommandResponse option \<Rightarrow>
     datetime \<Rightarrow> datetime \<Rightarrow> AgentCommandResponse \<times> AgentManager" where
  "send_command m aid c arrival now now' =
     (if aid \<notin> dom (command_queues m) then (not_found_response, m)
      else
        (case await_phase (dispatch_phase m aid c now) aid arrival now' of
           (response, m') \<Rightarrow> (response, finally_phase m' aid c now')))"

definition handle_agent_response ::
  "AgentManager \<Rightarrow> string \<Rightarrow> AgentCommandResponse \<Rightarrow> AgentManager" where
  "handle_agent_response m aid response =
     (case agent_connections m aid of
        None \<Rightarrow> m
      | Some q \<Rightarrow> m\<lparr>agent_connections := (agent_connections m)(aid \<mapsto> q @ [response])\<rparr>)"

section \<open>The polling endpoints (agent/router.py)\<close>

text \<open>
  The router keeps its own backlog, the module-level dictionary \<^verbatim>\<open>agent_commands\<close>,
  beside the global manager. An endpoint that raises \<^verbatim>\<open>HTTPException(404)\<close> returns
  \<open>Inl Http404\<close>.
\<close>

record router_state =
  manager :: AgentManager
  agent_commands :: "string \<rightharpoonup> AgentCommandRequest list"

datatype http_error = Http404

definition init_router :: router_state where
  "init_router = \<lparr>manager = init_manager, agent_commands = Map.empty\<rparr>"

text \<open>
  The endpoint \<^verbatim>\<open>register_agent\<close> builds the \<^verbatim>\<open>AgentInfo\<close> from the registration
  request (name, host name, address, capabilities), has the manager register it and gives
  the new id an empty backlog.
\<close>

definition register_endpoint ::
  "router_state \<Rightarrow> string \<Rightarrow> string \<Rightarrow> string \<Rightarrow> string list \<Rightarrow> string \<Rightarrow> datetime \<Rightarrow>
     string \<times> router_state" where
  "register_endpoint s nm host ip caps uuid now =
     (let full_agent_info =
            \<lparr>agent_id = '''', agent_name = nm, hostname = host, ip_address = ip,
             agent_status = ONLINE, last_seen = now, capabilities = caps,
             current_task = None, created_at = now\<rparr>;
          (aid, m) = register_agent (manager s) full_agent_info uuid now
      in (aid, s\<lparr>manager := m, agent_commands := (agent_commands s)(aid \<mapsto> [])\<rparr>))"

definition unregister_endpoint :: "router_state \<Rightarrow> string \<Rightarrow> router_state" where
  "unregister_endpoint s aid =
     s\<lparr>manager := unregister_agent (manager s) aid,
       agent_commands := del_key (agent_commands s) aid\<rparr>"

text \<open>
  \<^verbatim>\<open>send_command_to_agent\<close>: appends the command to the agent's backlog, creating
  the backlog when the agent has none.
\<close>

definition append_command ::
  "(string \<rightharpoonup> AgentCommandRequest list) \<Rightarrow> string \<Rightarrow> AgentCommandRequest \<Rightarrow>
     (string \<rightharpoonup> AgentCommandRequest list)" where
  "append_command cs aid c =
     (case cs aid of None \<Rightarrow> cs(aid \<mapsto> [c]) | Some q \<Rightarrow> cs(aid \<mapsto> q @ [c]))"

definition send_command_to_agent ::
  "router_state \<Rightarrow> string \<Rightarrow> AgentCommandRequest \<Rightarrow>
     (http_error + AgentCommandResponse) \<times> router_state" where
  "send_command_to_agent s aid c =
     (case get_agent (manager s) aid of
        None \<Rightarrow> (Inl Http404, s)
      | Some agent \<Rightarrow>
          (Inr \<lparr>success = True, message = ''Command queued for agent '' @ aid,
                result = None, error = None\<rparr>,
           s\<lparr>agent_commands := append_command (agent_commands s) aid c\<rparr>))"

text \<open>
  \<^verbatim>\<open>get_agent_commands\<close>, the poll. It refreshes the agent's last-seen time, then
  returns the head of a non-empty backlog (\<^verbatim>\<open>pop(0)\<close>) as \<open>Some c\<close>, or the empty
  dictionary \<^verbatim>\<open>{}\<close>, here \<open>None\<close>. The serialised command always has keys, so the two
  cannot be confused.
\<close>

definition get_agent_commands ::
  "router_state \<Rightarrow> string \<Rightarrow> datetime \<Rightarrow>
     (http_error + AgentCommandRequest option) \<times> router_state" where
  "get_agent_commands s aid now =
     (case get_agent (manager s) aid of
        None \<Rightarrow> (Inl Http404, s)
      | Some agent \<Rightarrow>
          (let s1 = s\<lparr>manager := update_agent_status (manager s) aid (agent_status agent) now\<rparr>
           in (case agent_commands s1 aid of
                 Some (c # cs) \<Rightarrow>
                   (Inr (Some c), s1\<lparr>agent_commands := (agent_commands s1)(aid \<mapsto> cs)\<rparr>)
               | _ \<Rightarrow> (Inr None, s1))))"

text \<open>Polling several times in a row, at the given clock readings, collecting the answers.\<close>

fun poll_many ::
  "router_state \<Rightarrow> string \<Rightarrow> datetime list \<Rightarrow>
     (http_error + AgentCommandRequest option) list \<times> router_state" where
  "poll_many s aid [] = ([], s)"
| "poll_many s aid (t # ts) =
     (case get_agent_commands s aid t of
        (r, s1) \<Rightarrow> (case poll_many s1 aid ts of (rs, s2) \<Rightarrow> (r # rs, s2)))"

text \<open>Enqueuing several commands in a row through the endpoint.\<close>

fun enqueue_many :: "router_state \<Rightarrow> string \<Rightarrow> AgentCommandRequest list \<Rightarrow> router_state" where
  "enqueue_many s aid [] = s"
| "enqueue_many s aid (c # cs) = enqueue_many (snd (send_command_to_agent s aid c)) aid cs"

section \<open>The environment of a run\<close>

text \<open>
  The browser driver (Playwright), the file system and the database server are outside the
  program. Every call into them is a value of \<open>call\<close>; the environment answers a call in
  its current state \<open>'w\<close> with \<open>None\<close> when the call returns and with \<open>Some text\<close> when
  it raises an exception whose text is \<open>text\<close>, and moves to a new state. Nothing is
  assumed about the environment: the properties below hold for every \<open>perform\<close>.
  \<open>clock\<close> is the reading of \<^verbatim>\<open>time.time()\<close> in whole seconds and \<open>strftime\<close> the
  rendering of a clock reading by \<^verbatim>\<open>strftime("%Y%m%d_%H%M%S")\<close>.
\<close>

datatype call =
    Makedirs string
  | OpenLogFile string
  | PlaywrightStart
  | Launch string bool
  | NewContext
  | TracingStart
  | NewPage
  | PageGoto string
  | BodyWaitVisible
  | Click string
  | Fill string string
  | Press string string
  | SelectOption string string
  | WaitForSelector string
  | WaitForUrl string
  | ExpectText string string
  | ExpectTitle string
  | PageScreenshot string
  | TracingStop string
  | PageClose
  | ContextClose
  | BrowserClose
  | PlaywrightStop
  | DbSession

record 'w environment =
  perform :: "'w \<Rightarrow> call \<Rightarrow> string option \<times> 'w"
  clock :: "'w \<Rightarrow> int"
  strftime :: "int \<Rightarrow> string"

text \<open>
  The exceptions of a run. The \<^verbatim>\<open>ValueError\<close> of a keyword method carries a fixed
  text naming the fields the keyword needs; it is kept as the name of the keyword that
  raised it. \<open>External\<close> is whatever the environment raised.
\<close>

datatype exn =
    UnsupportedKeyword "string option"
  | MissingField string
  | AttributeError string
  | CaseNotFound int
  | ProjectNotFound int
  | ValidationError
  | UnsupportedBrowser
  | External string

text \<open>
  A computation over a state \<open>'s\<close> that returns a value or raises: \<open>Inl e\<close> is the
  exception \<open>e\<close> in flight, and the state is the one reached when it was raised.
\<close>

type_synonym ('s, 'a) prog = "'s \<Rightarrow> (exn + 'a) \<times> 's"

definition ret :: "'a \<Rightarrow> ('s, 'a) prog" where
  "ret x s = (Inr x, s)"

definition raise :: "exn \<Rightarrow> ('s, 'a) prog" where
  "raise e s = (Inl e, s)"

definition bind :: "('s, 'a) prog \<Rightarrow> ('a \<Rightarrow> ('s, 'b) prog) \<Rightarrow> ('s, 'b) prog" where
  "bind m f s = (case m s of (Inl e, s') \<Rightarrow> (Inl e, s') | (Inr x, s') \<Rightarrow> f x s')"

definition catch :: "('s, 'a) prog \<Rightarrow> (exn \<Rightarrow> ('s, 'a) prog) \<Rightarrow> ('s, 'a) prog" where
  "catch m h s = (case m s of (Inl e, s') \<Rightarrow> h e s' | (Inr x, s') \<Rightarrow> (Inr x, s'))"

definition ext :: "'w environment \<Rightarrow> call \<Rightarrow> ('w, unit) prog" where
  "ext E c w =
     (case perform E w c of
        (None, w') \<Rightarrow> (Inr (), w')
      | (Some x, w') \<Rightarrow> (Inl (External x), w'))"

section \<open>Python helpers\<close>

text \<open>Truth value of an \<^verbatim>\<open>Optional[str]\<close>: \<^verbatim>\<open>None\<close> and the empty string are false.\<close>

definition truthy :: "string option \<Rightarrow> bool" where
  "truthy v \<longleftrightarrow> v \<noteq> None \<and> v \<noteq> Some []"

definition startswith :: "string \<Rightarrow> string \<Rightarrow> bool" where
  "startswith s p \<longleftrightarrow> take (length p) s = p"

text \<open>\<^verbatim>\<open>str\<close> of an integer, in decimal.\<close>

definition digit :: "nat \<Rightarrow> char" where
  "digit n = ''0123456789'' ! n"

fun str_nat :: "nat \<Rightarrow> string" where
  "str_nat n = (if n < 10 then [digit n] else str_nat (n div 10) @ [digit (n mod 10)])"

declare str_nat.simps [simp del]

definition str_int :: "int \<Rightarrow> string" where
  "str_int i = (if i < 0 then CHR ''-'' # str_nat (nat (- i)) else str_nat (nat i))"

text \<open>\<^verbatim>\<open>os.path.join\<close> of two components, on a POSIX system.\<close>

definition path_join :: "string \<Rightarrow> string \<Rightarrow> string" where
  "path_join a b =
     (if startswith b ''/'' then b
      else if a = [] \<or> last a = CHR ''/'' then a @ b
      else a @ ''/'' @ b)"

section \<open>The keyword engine (\<^verbatim>\<open>core/keyword_engine.py\<close>)\<close>

text \<open>
  A step is the dictionary \<^verbatim>\<open>execute_step\<close> receives: a row of the table of steps.
  \<open>None\<close> in a field is a missing key or a null; the keys a run reads are \<^verbatim>\<open>id\<close>,
  \<^verbatim>\<open>keyword\<close>, \<^verbatim>\<open>locator\<close>, \<^verbatim>\<open>value\<close> and \<^verbatim>\<open>description\<close>.
\<close>

record step =
  step_id :: "int option"
  step_case_id :: int
  step_order :: int
  keyword :: "string option"
  locator :: "string option"
  step_value :: "string option"
  description :: "string option"

record engine =
  base_url :: string
  output_dir :: string
  screenshot_dir :: string

definition KEYWORDS :: "string list" where
  "KEYWORDS =
     [''goto'', ''click'', ''fill'', ''press'', ''select_option'', ''wait_for_selector'',
      ''wait_for_url'', ''expect_text'', ''expect_title'', ''screenshot'']"

text \<open>\<^verbatim>\<open>_get_locator\<close>.\<close>

definition get_locator :: "string \<Rightarrow> string" where
  "get_locator loc =
     (if startswith loc ''/'' \<or> startswith loc ''('' then ''xpath='' @ loc else loc)"

text \<open>
  The keyword methods. Each takes the \<^verbatim>\<open>locator\<close> and the \<^verbatim>\<open>value\<close> of the step,
  checks the fields it needs and then calls the driver.
\<close>

definition goto :: "'w environment \<Rightarrow> engine \<Rightarrow> string option \<Rightarrow> string option \<Rightarrow> ('w, unit) prog" where
  "goto E eng loc v =
     (if \<not> truthy v then raise (MissingField ''goto'')
      else
        (let url = (if startswith (the v) ''http'' then the v else base_url eng @ the v)
         in bind (ext E (PageGoto url)) (\<lambda>_. ext E BodyWaitVisible)))"

definition click :: "'w environment \<Rightarrow> engine \<Rightarrow> string option \<Rightarrow> string option \<Rightarrow> ('w, unit) prog" where
  "click E eng loc v =
     (if \<not> truthy loc then raise (MissingField ''click'')
      else ext E (Click (get_locator (the loc))))"

definition fill :: "'w environment \<Rightarrow> engine \<Rightarrow> string option \<Rightarrow> string option \<Rightarrow> ('w, unit) prog" where
  "fill E eng loc v =
     (if \<not> truthy loc \<or> v = None then raise (MissingField ''fill'')
      else ext E (Fill (get_locator (the loc)) (the v)))"

definition press :: "'w environment \<Rightarrow> engine \<Rightarrow> string option \<Rightarrow> string option \<Rightarrow> ('w, unit) prog" where
  "press E eng loc v =
     (if \<not> truthy loc \<or> \<not> truthy v then raise (MissingField ''press'')
      else ext E (Press (get_locator (the loc)) (the v)))"

definition select_option ::
  "'w environment \<Rightarrow> engine \<Rightarrow> string option \<Rightarrow> string option \<Rightarrow> ('w, unit) prog" where
  "select_option E eng loc v =
     (if \<not> truthy loc \<or> \<not> truthy v then raise (MissingField ''select_option'')
      else ext E (SelectOption (get_locator (the loc)) (the v)))"

definition wait_for_selector ::
  "'w environment \<Rightarrow> engine \<Rightarrow> string option \<Rightarrow> string option \<Rightarrow> ('w, unit) prog" where
  "wait_for_selector E eng loc v =
     (if \<not> truthy loc then raise (MissingField ''wait_for_selector'')
      else ext E (WaitForSelector (get_locator (the loc))))"

definition wait_for_url ::
  "'w environment \<Rightarrow> engine \<Rightarrow> string option \<Rightarrow> string option \<Rightarrow> ('w, unit) prog" where
  "wait_for_url E eng loc v =
     (if \<not> truthy v then raise (MissingField ''wait_for_url'')
      else ext E (WaitForUrl (the v)))"

definition expect_text ::
  "'w environment \<Rightarrow> engine \<Rightarrow> string option \<Rightarrow> string option \<Rightarrow> ('w, unit) prog" where
  "expect_text E eng loc v =
     (if \<not> truthy loc \<or> v = None then raise (MissingField ''expect_text'')
      else ext E (ExpectText (get_locator (the loc)) (the v)))"

definition expect_title ::
  "'w environment \<Rightarrow> engine \<Rightarrow> string option \<Rightarrow> string option \<Rightarrow> ('w, unit) prog" where
  "expect_title E eng loc v =
     (if v = None then raise (MissingField ''expect_title'')
      else ext E (ExpectTitle (the v)))"

text \<open>
  \<^verbatim>\<open>screenshot\<close> saves the page under the screenshot directory and returns the path;
  without a file name it makes one from the clock.
\<close>

definition screenshot :: "'w environment \<Rightarrow> engine \<Rightarrow> string option \<Rightarrow> ('w, string) prog" where
  "screenshot E eng v w =
     (let filename = (if truthy v then the v else ''screenshot_'' @ str_int (clock E w) @ ''.png'');
          path = path_join (screenshot_dir eng) filename
      in bind (ext E (PageScreenshot path)) (\<lambda>_. ret path) w)"

text \<open>
  \<^verbatim>\<open>getattr(self, keyword)\<close> followed by the call with \<^verbatim>\<open>locator=\<close> and
  \<^verbatim>\<open>value=\<close>: the method of that name. As a keyword \<^verbatim>\<open>screenshot\<close> takes the
  \<^verbatim>\<open>value\<close> as file name and its result is dropped.
\<close>

definition getattr ::
  "string \<Rightarrow>
     ('w environment \<Rightarrow> engine \<Rightarrow> string option \<Rightarrow> string option \<Rightarrow> ('w, unit) prog) option" where
  "getattr kw =
     map_of
       [(''goto'', goto), (''click'', click), (''fill'', fill), (''press'', press),
        (''select_option'', select_option), (''wait_for_selector'', wait_for_selector),
        (''wait_for_url'', wait_for_url), (''expect_text'', expect_text),
        (''expect_title'', expect_title),
        (''screenshot'', \<lambda>E eng loc v. bind (screenshot E eng v) (\<lambda>_. ret ()))] kw"

text \<open>The body of the \<^verbatim>\<open>try\<close> block of \<^verbatim>\<open>execute_step\<close>.\<close>

definition run_keyword :: "'w environment \<Rightarrow> engine \<Rightarrow> step \<Rightarrow> ('w, unit) prog" where
  "run_keyword E eng s =
     (case keyword s of
        None \<Rightarrow> raise (UnsupportedKeyword None)
      | Some kw \<Rightarrow>
          if kw \<notin> set KEYWORDS then raise (UnsupportedKeyword (Some kw))
          else
            (case getattr kw of
               None \<Rightarrow> raise (AttributeError kw)
             | Some method \<Rightarrow> method E eng (locator s) (step_value s)))"

text \<open>
  The description of a step, and the two messages \<^verbatim>\<open>execute_step\<close> formats from it:
  \<^verbatim>\<open>f"SUCCESS: {description}"\<close> and \<^verbatim>\<open>f"FAILURE: {description}. Error: {e}"\<close>. A
  message is kept as its parts; \<open>Text e\<close> is \<^verbatim>\<open>str(e)\<close>.
\<close>

definition py_str :: "string option \<Rightarrow> string" where
  "py_str v = (case v of None \<Rightarrow> ''None'' | Some s \<Rightarrow> s)"

definition describe :: "step \<Rightarrow> string" where
  "describe s =
     (if truthy (description s) then the (description s)
      else py_str (keyword s) @ '' '' @
        (if truthy (locator s) then ''on '' @ the (locator s) else ''''))"

datatype message_text = SUCCESS string | FAILURE string exn | Text exn

definition failure_screenshot_name :: "step \<Rightarrow> string" where
  "failure_screenshot_name s =
     ''step_'' @ (case step_id s of None \<Rightarrow> ''unknown'' | Some i \<Rightarrow> str_int i) @ ''_failure.png''"

text \<open>
  \<^verbatim>\<open>execute_step\<close>: the handler of the \<^verbatim>\<open>try\<close> block takes the failure screenshot
  itself, outside any \<^verbatim>\<open>try\<close>.
\<close>

definition execute_step ::
  "'w environment \<Rightarrow> engine \<Rightarrow> step \<Rightarrow> ('w, bool \<times> message_text \<times> string option) prog" where
  "execute_step E eng s =
     catch
       (bind (run_keyword E eng s) (\<lambda>_. ret (True, SUCCESS (describe s), None)))
       (\<lambda>e. bind (screenshot E eng (Some (failure_screenshot_name s)))
              (\<lambda>screenshot_path. ret (False, FAILURE (describe s) e, Some screenshot_path)))"

section \<open>The record store (\<^verbatim>\<open>app/database.py\<close>, \<^verbatim>\<open>app/crud.py\<close>)\<close>

text \<open>
  The rows the run reads and writes. A project row is validated into the \<^verbatim>\<open>Project\<close>
  model when it is read; a case is returned as a dictionary with its steps attached.
\<close>

record project_row =
  row_name :: string
  row_base_url :: "string option"
  row_browser :: string
  row_headless :: "bool option"

record project =
  project_name :: string
  project_base_url :: "string option"
  browser :: string
  headless :: bool

record test_case_row =
  row_project_id :: int
  row_case_name :: string

record case_data =
  project_id :: int
  name :: string
  steps :: "step list"

text \<open>
  One entry of \<^verbatim>\<open>run_log_entries\<close>, a row of \<^verbatim>\<open>test_runs\<close> and a row of
  \<^verbatim>\<open>run_logs\<close>. Times are clock readings in seconds and the duration is their
  difference.
\<close>

record log_entry =
  log_step_id :: "int option"
  level :: string
  log_message :: message_text
  log_screenshot_path :: "string option"

record test_run =
  run_id :: nat
  run_case_id :: int
  run_status :: string
  start_time :: int
  end_time :: int
  duration :: int
  run_report_path :: "string option"
  run_log_path :: "string option"

record run_log =
  log_run_id :: nat
  log_row :: log_entry

record database =
  projects :: "int \<rightharpoonup> project_row"
  test_cases :: "int \<rightharpoonup> test_case_row"
  test_steps :: "step list"
  test_runs :: "test_run list"
  run_logs :: "run_log list"

text \<open>
  \<^verbatim>\<open>get_db_cursor\<close>: a session with the database server, from the connection to the
  commit. It either completes or raises, and when it raises nothing of it is committed, so
  one call of the environment decides it.
\<close>

definition get_db_cursor :: "'w environment \<Rightarrow> ('w, unit) prog" where
  "get_db_cursor E = ext E DbSession"

text \<open>\<^verbatim>\<open>get_steps_for_case\<close>: the steps of the case, \<^verbatim>\<open>ORDER BY step_order ASC\<close>.\<close>

definition get_steps_for_case :: "'w environment \<Rightarrow> database \<Rightarrow> int \<Rightarrow> ('w, step list) prog" where
  "get_steps_for_case E db case_id =
     bind (get_db_cursor E)
       (\<lambda>_. ret (sort_key step_order (filter (\<lambda>s. step_case_id s = case_id) (test_steps db))))"

definition get_test_case ::
  "'w environment \<Rightarrow> database \<Rightarrow> int \<Rightarrow> ('w, case_data option) prog" where
  "get_test_case E db case_id =
     bind (get_db_cursor E)
       (\<lambda>_. case test_cases db case_id of
              None \<Rightarrow> ret None
            | Some row \<Rightarrow>
                bind (get_steps_for_case E db case_id)
                  (\<lambda>ss. ret (Some \<lparr>project_id = row_project_id row, name = row_case_name row,
                                     steps = ss\<rparr>)))"

text \<open>
  \<^verbatim>\<open>get_project\<close>: a missing headless flag defaults to true; the constructor of the
  \<^verbatim>\<open>Project\<close> model then validates the name (1 to 255 characters) and the browser
  (one of the three kinds) and raises a validation error otherwise.
\<close>

definition validate_project :: "project_row \<Rightarrow> ('w, project) prog" where
  "validate_project row =
     (if length (row_name row) < 1 \<or> 255 < length (row_name row) \<or>
         row_browser row \<notin> set [''chromium'', ''firefox'', ''webkit'']
      then raise ValidationError
      else ret \<lparr>project_name = row_name row, project_base_url = row_base_url row,
                browser = row_browser row,
                headless = (case row_headless row of None \<Rightarrow> True | Some h \<Rightarrow> h)\<rparr>)"

definition get_project :: "'w environment \<Rightarrow> database \<Rightarrow> int \<Rightarrow> ('w, project option) prog" where
  "get_project E db pid =
     bind (get_db_cursor E)
       (\<lambda>_. case projects db pid of
              None \<Rightarrow> ret None
            | Some row \<Rightarrow> bind (validate_project row) (\<lambda>p. ret (Some p)))"

section \<open>The browser session (\<^verbatim>\<open>core/playwright_manager.py\<close>)\<close>

definition playwright_init :: "string \<Rightarrow> ('s, unit) prog" where
  "playwright_init browser_type =
     (if browser_type \<notin> set [''chromium'', ''firefox'', ''webkit'']
      then raise UnsupportedBrowser else ret ())"

definition playwright_start :: "'w environment \<Rightarrow> string \<Rightarrow> bool \<Rightarrow> ('w, unit) prog" where
  "playwright_start E browser_type hl =
     bind (ext E PlaywrightStart) (\<lambda>_. ext E (Launch browser_type hl))"

text \<open>
  \<^verbatim>\<open>stop\<close> closes the browser when it is still connected and then stops the driver;
  whether the browser is still connected is the environment's knowledge, so the close is a
  call the environment may answer by doing nothing.
\<close>

definition playwright_stop :: "'w environment \<Rightarrow> ('w, unit) prog" where
  "playwright_stop E = bind (ext E BrowserClose) (\<lambda>_. ext E PlaywrightStop)"

text \<open>
  The body of an \<^verbatim>\<open>async with\<close> block followed by \<^verbatim>\<open>__aexit__\<close>, which runs whether
  the body raised or not and does not suppress the exception of the body; an exception of
  \<^verbatim>\<open>__aexit__\<close> itself takes the place of the outcome of the body.
\<close>

definition async_with :: "('s, unit) prog \<Rightarrow> ('s, 'a) prog \<Rightarrow> ('s, 'a) prog" where
  "async_with aexit body s =
     (case body s of
        (r, s1) \<Rightarrow> (case aexit s1 of (Inl e, s2) \<Rightarrow> (Inl e, s2) | (Inr u, s2) \<Rightarrow> (r, s2)))"

section \<open>The run orchestrator (\<^verbatim>\<open>core/runner.py\<close>)\<close>

text \<open>
  The local variables of \<^verbatim>\<open>run_test_case\<close> that outlive the \<^verbatim>\<open>try\<close> block, with the
  state of the environment.
\<close>

record 'w run_state =
  world :: 'w
  run_log_entries :: "log_entry list"
  test_status :: string
  report_path :: "string option"
  log_file_path :: "string option"

definition in_world :: "('w, 'a) prog \<Rightarrow> ('w run_state, 'a) prog" where
  "in_world m s = (case m (world s) of (r, w') \<Rightarrow> (r, s\<lparr>world := w'\<rparr>))"

definition modify :: "('s \<Rightarrow> 's) \<Rightarrow> ('s, unit) prog" where
  "modify f s = (Inr (), f s)"

definition KeywordEngine_init :: "'w environment \<Rightarrow> string \<Rightarrow> string \<Rightarrow> ('w, engine) prog" where
  "KeywordEngine_init E url dir =
     (let sd = path_join dir ''screenshots''
      in bind (ext E (Makedirs sd))
           (\<lambda>_. ret \<lparr>base_url = url, output_dir = dir, screenshot_dir = sd\<rparr>))"

text \<open>
  The loop over \<^verbatim>\<open>enumerate(case_data['steps'])\<close>, from index \<open>i\<close> on. It returns
  \<^verbatim>\<open>all_steps_succeeded\<close>.
\<close>

definition step_entry :: "nat \<Rightarrow> bool \<Rightarrow> message_text \<Rightarrow> string option \<Rightarrow> log_entry" where
  "step_entry i ok msg shot =
     \<lparr>log_step_id = Some (int i + 1), level = (if ok then ''INFO'' else ''ERROR''),
      log_message = msg, log_screenshot_path = shot\<rparr>"

fun step_loop :: "'w environment \<Rightarrow> engine \<Rightarrow> nat \<Rightarrow> step list \<Rightarrow> ('w run_state, bool) prog" where
  "step_loop E eng i [] = ret True"
| "step_loop E eng i (st # rest) =
     bind (in_world (execute_step E eng (st\<lparr>step_id := Some (int i + 1)\<rparr>)))
       (\<lambda>(ok, msg, shot).
          bind (modify (\<lambda>s. s\<lparr>run_log_entries := run_log_entries s @ [step_entry i ok msg shot]\<rparr>))
            (\<lambda>_. if \<not> ok then ret False else step_loop E eng (i + 1) rest))"

text \<open>
  The body of the \<^verbatim>\<open>async with PlaywrightManager(...) as browser\<close> block, in its three
  parts: the traced context, the page and the engine are set up; the steps are executed;
  the trace is stopped and saved and the page and the context are closed.
\<close>

definition open_page :: "'w environment \<Rightarrow> project \<Rightarrow> string \<Rightarrow> ('w run_state, engine) prog" where
  "open_page E project_data dir =
     bind (modify (\<lambda>s. s\<lparr>report_path := Some (path_join dir ''report.zip'')\<rparr>)) (\<lambda>_.
     bind (in_world (ext E NewContext)) (\<lambda>_.
     bind (in_world (ext E TracingStart)) (\<lambda>_.
     bind (in_world (ext E NewPage)) (\<lambda>_.
     in_world (KeywordEngine_init E
       (case project_base_url project_data of None \<Rightarrow> [] | Some u \<Rightarrow> u) dir)))))"

definition stop_tracing :: "'w environment \<Rightarrow> string \<Rightarrow> ('w run_state, unit) prog" where
  "stop_tracing E dir =
     bind (in_world (ext E (TracingStop (path_join dir ''trace.zip'')))) (\<lambda>_.
     bind (in_world (ext E PageClose)) (\<lambda>_.
     bind (in_world (ext E ContextClose)) (\<lambda>_.
     modify (\<lambda>s. s\<lparr>report_path := Some (path_join dir ''trace.zip'')\<rparr>))))"

definition session ::
  "'w environment \<Rightarrow> project \<Rightarrow> string \<Rightarrow> step list \<Rightarrow> ('w run_state, bool) prog" where
  "session E project_data dir ss =
     bind (open_page E project_data dir) (\<lambda>eng.
     bind (step_loop E eng 0 ss) (\<lambda>all_steps_succeeded.
     bind (stop_tracing E dir) (\<lambda>_.
     ret all_steps_succeeded)))"

text \<open>
  The \<^verbatim>\<open>try\<close> block of \<^verbatim>\<open>run_test_case\<close>; \<open>started\<close> is the start time. First the
  case and its project are fetched and the output directory and the log file of the run
  are made; then the browser session runs.
\<close>

definition prepare_run ::
  "'w environment \<Rightarrow> database \<Rightarrow> int \<Rightarrow> int \<Rightarrow> ('w run_state, case_data \<times> project \<times> string) prog" where
  "prepare_run E db case_id started =
     bind (in_world (get_test_case E db case_id)) (\<lambda>found.
     case found of
       None \<Rightarrow> raise (CaseNotFound case_id)
     | Some cd \<Rightarrow>
     bind (in_world (get_project E db (project_id cd))) (\<lambda>found_project.
     case found_project of
       None \<Rightarrow> raise (ProjectNotFound (project_id cd))
     | Some project_data \<Rightarrow>
     (let dir = path_join ''reports'' (''run_'' @ str_int case_id @ ''_'' @ strftime E started)
      in
     bind (in_world (ext E (Makedirs dir))) (\<lambda>_.
     bind (modify (\<lambda>s. s\<lparr>log_file_path := Some (path_join dir ''run.log'')\<rparr>)) (\<lambda>_.
     bind (in_world (ext E (OpenLogFile (path_join dir ''run.log'')))) (\<lambda>_.
     ret (cd, project_data, dir)))))))"

definition try_block :: "'w environment \<Rightarrow> database \<Rightarrow> int \<Rightarrow> int \<Rightarrow> ('w run_state, unit) prog" where
  "try_block E db case_id started =
     bind (prepare_run E db case_id started) (\<lambda>(cd, project_data, dir).
     bind (playwright_init (browser project_data)) (\<lambda>_.
     bind (in_world (playwright_start E (browser project_data) (headless project_data))) (\<lambda>_.
     bind (async_with (in_world (playwright_stop E)) (session E project_data dir (steps cd)))
       (\<lambda>all_steps_succeeded.
     modify (\<lambda>s. s\<lparr>test_status := (if all_steps_succeeded then ''Passed'' else ''Failed'')\<rparr>)))))"

text \<open>
  The \<^verbatim>\<open>except Exception\<close> handler, and the run up to the \<^verbatim>\<open>finally\<close> block: the
  variables start as the function sets them, with the status Failed.
\<close>

definition critical_entry :: "exn \<Rightarrow> log_entry" where
  "critical_entry e =
     \<lparr>log_step_id = None, level = ''CRITICAL'', log_message = Text e,
      log_screenshot_path = None\<rparr>"

definition initial_state :: "'w \<Rightarrow> 'w run_state" where
  "initial_state w =
     \<lparr>world = w, run_log_entries = [], test_status = ''Failed'', report_path = None,
      log_file_path = None\<rparr>"

definition except_handler :: "exn \<Rightarrow> 'w run_state \<Rightarrow> 'w run_state" where
  "except_handler e s =
     s\<lparr>test_status := ''Failed'', run_log_entries := run_log_entries s @ [critical_entry e]\<rparr>"

definition run_try_except :: "'w environment \<Rightarrow> database \<Rightarrow> int \<Rightarrow> int \<Rightarrow> 'w \<Rightarrow> 'w run_state" where
  "run_try_except E db case_id started w =
     (case try_block E db case_id started (initial_state w) of
        (Inr u, s) \<Rightarrow> s
      | (Inl e, s) \<Rightarrow> except_handler e s)"






section \<open>Notions used to state the registry and polling properties\<close>

text \<open>
  The registry keeps its three dictionaries on the same keys; every operation of the manager
  preserves this, starting from the empty manager.
\<close>

definition registry_wf :: "AgentManager \<Rightarrow> bool" where
  "registry_wf m \<longleftrightarrow>
     dom (agent_connections m) = dom (agents m) \<and> dom (command_queues m) = dom (agents m)"

text \<open>
  The pending commands of an agent as the poll sees them: a missing backlog and an empty
  one are both the empty list. An agent is registered when \<^verbatim>\<open>get_agent\<close> finds it.
\<close>

definition backlog :: "router_state \<Rightarrow> string \<Rightarrow> AgentCommandRequest list" where
  "backlog s aid = (case agent_commands s aid of None \<Rightarrow> [] | Some q \<Rightarrow> q)"

definition registered :: "router_state \<Rightarrow> string \<Rightarrow> bool" where
  "registered s aid \<longleftrightarrow> get_agent (manager s) aid \<noteq> None"

text \<open>Concrete requests and a registry holding one agent, for the worked instances.\<close>

definition ping_request :: AgentCommandRequest where
  "ping_request = \<lparr>command = PING, request_payload = [], timeout = 300\<rparr>"

definition run_case_request :: AgentCommandRequest where
  "run_case_request =
     \<lparr>command = RUN_TEST_CASE, request_payload = [(''case_id'', ''1'')], timeout = 300\<rparr>"

definition one_agent_router :: router_state where
  "one_agent_router =
     snd (register_endpoint init_router ''worker'' ''host-a'' ''10.0.0.5'' [''playwright'']
            ''agent-1'' 0)"

definition one_agent_manager :: AgentManager where
  "one_agent_manager = manager one_agent_router"


section \<open>Notions used to state the engine properties\<close>

text \<open>The path under which \<^verbatim>\<open>execute_step\<close> saves the screenshot of a failed step.\<close>

definition failure_path :: "engine \<Rightarrow> step \<Rightarrow> string" where
  "failure_path eng s = path_join (screenshot_dir eng) (failure_screenshot_name s)"

text \<open>
  Concrete environments for the worked instances. Their state is the list of the calls made
  so far, oldest first; a call raises when \<open>fails\<close> holds of it.
\<close>

definition recording_env :: "(call \<Rightarrow> bool) \<Rightarrow> (call list) environment" where
  "recording_env fails =
     \<lparr>perform = (\<lambda>w c. (if fails c then Some ''driver error'' else None, w @ [c])),
      clock = (\<lambda>w. 1700000000),
      strftime = (\<lambda>t. ''20231114_221320'')\<rparr>"

definition never :: "call \<Rightarrow> bool" where
  "never c = False"

definition is_screenshot :: "call \<Rightarrow> bool" where
  "is_screenshot c = (case c of PageScreenshot p \<Rightarrow> True | _ \<Rightarrow> False)"

text \<open>A concrete engine and concrete steps.\<close>

definition demo_engine :: engine where
  "demo_engine =
     \<lparr>base_url = ''http://localhost:3000'', output_dir = ''reports/run_1_20231114_221320'',
      screenshot_dir = ''reports/run_1_20231114_221320/screenshots''\<rparr>"

definition mk_step :: "string \<Rightarrow> string option \<Rightarrow> string option \<Rightarrow> step" where
  "mk_step kw loc v =
     \<lparr>step_id = Some 7, step_case_id = 1, step_order = 1, keyword = Some kw, locator = loc,
      step_value = v, description = None\<rparr>"

definition hover_step :: step where
  "hover_step = mk_step ''hover'' (Some ''#menu'') None"

section \<open>Notions used to state the orchestrator properties\<close>

text \<open>
  The entries a loop started at index \<open>i\<close> appends carry the positions \<open>i + 1\<close>,
  \<open>i + 2\<close>, and so on. A part of the run keeps the log and the status when, whatever its
  outcome, it leaves both as it found them.
\<close>

definition step_ids :: "nat \<Rightarrow> log_entry list \<Rightarrow> bool" where
  "step_ids i new \<longleftrightarrow> map log_step_id new = map (\<lambda>j. Some (int j + 1)) [i..<i + length new]"

definition keeps :: "('w run_state, 'a) prog \<Rightarrow> bool" where
  "keeps m \<longleftrightarrow>
     (\<forall>s r s'. m s = (r, s') \<longrightarrow>
        run_log_entries s' = run_log_entries s \<and> test_status s' = test_status s)"

text \<open>
  A concrete record store: one project, the four-step login case as case 1, stored out of
  order and with ids that differ from the positions, and a case 2 without steps. The
  concrete environments raise on a click, on stopping the trace, on the browser launch, or on
  every database session.
\<close>

definition case_step :: "int \<Rightarrow> int \<Rightarrow> string \<Rightarrow> string option \<Rightarrow> string option \<Rightarrow> step" where
  "case_step cid n kw loc v =
     \<lparr>step_id = Some (100 + n), step_case_id = cid, step_order = n, keyword = Some kw,
      locator = loc, step_value = v, description = None\<rparr>"

definition login_steps :: "step list" where
  "login_steps =
     [case_step 1 1 ''goto'' None (Some ''/login''),
      case_step 1 2 ''fill'' (Some ''#user'') (Some ''bob''),
      case_step 1 3 ''click'' (Some ''#submit'') None,
      case_step 1 4 ''expect_text'' (Some ''#greeting'') (Some ''Welcome bob'')]"

definition demo_db :: database where
  "demo_db =
     \<lparr>projects = [1 \<mapsto> \<lparr>row_name = ''shop'', row_base_url = Some ''http://localhost:3000'',
                          row_browser = ''chromium'', row_headless = None\<rparr>],
      test_cases = [1 \<mapsto> \<lparr>row_project_id = 1, row_case_name = ''login''\<rparr>,
                    2 \<mapsto> \<lparr>row_project_id = 1, row_case_name = ''empty''\<rparr>],
      test_steps = rev login_steps,
      test_runs = [],
      run_logs = []\<rparr>"

definition is_click :: "call \<Rightarrow> bool" where
  "is_click c = (case c of Click l \<Rightarrow> True | _ \<Rightarrow> False)"

definition is_tracing_stop :: "call \<Rightarrow> bool" where
  "is_tracing_stop c = (case c of TracingStop p \<Rightarrow> True | _ \<Rightarrow> False)"

definition is_launch :: "call \<Rightarrow> bool" where
  "is_launch c = (case c of Launch b h \<Rightarrow> True | _ \<Rightarrow> False)"

definition is_db_session :: "call \<Rightarrow> bool" where
  "is_db_session c = (case c of DbSession \<Rightarrow> True | _ \<Rightarrow> False)"

definition click_env :: "(call list) environment" where
  "click_env = recording_env is_click"

definition calm_env :: "(call list) environment" where
  "calm_env = recording_env never"

definition trace_stop_env :: "(call list) environment" where
  "trace_stop_env = recording_env is_tracing_stop"

definition launch_env :: "(call list) environment" where
  "launch_env = recording_env is_launch"

definition db_down_env :: "(call list) environment" where
  "db_down_env = recording_env is_db_session"

section \<open>Properties of the registry and the command channels\<close>



lemma dom_del_key: "dom (del_key d k) = dom d - {k}"
  by (auto simp: del_key_def)




lemma registry_wf_unregister:
  "registry_wf m \<Longrightarrow> registry_wf (unregister_agent m aid)"
  by (simp add: registry_wf_def unregister_agent_def dom_del_key)

lemma dom_agents_update:
  "dom (agents (update_agent_status m aid st t)) = dom (agents m)"
  by (auto simp: update_agent_status_def split: option.splits)

lemma registry_wf_update:
  "registry_wf m \<Longrightarrow> registry_wf (update_agent_status m aid st t)"
  by (auto simp: registry_wf_def update_agent_status_def split: option.splits)

lemma registry_wf_put_command: "registry_wf m \<Longrightarrow> registry_wf (put_command m aid c)"
  by (auto simp: registry_wf_def put_command_def split: option.splits)

lemma registry_wf_wait:
  "registry_wf m \<Longrightarrow> registry_wf (snd (wait_for_response m aid arrival))"
  by (auto simp: registry_wf_def wait_for_response_def split: option.splits list.splits)

lemma registry_wf_handle_response:
  "registry_wf m \<Longrightarrow> registry_wf (handle_agent_response m aid r)"
  by (auto simp: registry_wf_def handle_agent_response_def split: option.splits)

lemma registry_wf_send_command:
  "registry_wf m \<Longrightarrow> registry_wf (snd (send_command m aid c arrival t t'))"
proof -
  assume wf: "registry_wf m"
  have d: "registry_wf (dispatch_phase m aid c t)"
    using wf by (simp add: dispatch_phase_def mark_busy_def registry_wf_put_command
        registry_wf_update)
  have a: "registry_wf (snd (await_phase (dispatch_phase m aid c t) aid arrival t'))"
    using registry_wf_wait [OF d, of aid arrival]
    by (auto simp: await_phase_def registry_wf_update
        split: prod.splits sum.splits wait_error.splits)
  show ?thesis
    using wf a by (auto simp: send_command_def finally_phase_def registry_wf_update
        split: prod.splits)
qed






lemma poll_step:
  assumes "registered s aid"
  shows "fst (get_agent_commands s aid t) =
           Inr (case backlog s aid of [] \<Rightarrow> None | c # cs \<Rightarrow> Some c)"
    and "backlog (snd (get_agent_commands s aid t)) aid = tl (backlog s aid)"
    and "registered (snd (get_agent_commands s aid t)) aid"
  using assms
  by (auto simp: registered_def get_agent_commands_def backlog_def get_agent_def
      update_agent_status_def Let_def split: option.splits list.splits)

lemma take_pad: "take n (xs @ replicate (Suc n) x) = take n (xs @ replicate n x)"
proof -
  have "take (n - length xs) (replicate (Suc n) x) = take (n - length xs) (replicate n x)"
    unfolding take_replicate by (simp add: min_def)
  then show ?thesis
    unfolding take_append by simp
qed

lemma poll_many_fifo:
  "registered s aid \<Longrightarrow>
     fst (poll_many s aid ts) =
       map Inr (take (length ts) (map Some (backlog s aid) @ replicate (length ts) None)) \<and>
     backlog (snd (poll_many s aid ts)) aid = drop (length ts) (backlog s aid) \<and>
     registered (snd (poll_many s aid ts)) aid"
proof (induction ts arbitrary: s)
  case Nil
  then show ?case by simp
next
  case (Cons t ts)
  let ?s1 = "snd (get_agent_commands s aid t)"
  have reg: "registered ?s1 aid" and bl: "backlog ?s1 aid = tl (backlog s aid)"
    using Cons.prems by (simp_all add: poll_step)
  note ih = Cons.IH [OF reg]
  have unfold: "poll_many s aid (t # ts) =
      (fst (get_agent_commands s aid t) # fst (poll_many ?s1 aid ts), snd (poll_many ?s1 aid ts))"
    by (simp add: split_beta)
  show ?case
  proof (cases "backlog s aid")
    case Nil
    with ih bl Cons.prems show ?thesis
      by (simp add: unfold poll_step(1) del: poll_many.simps)
  next
    case (Cons c cs)
    with ih bl Cons.prems show ?thesis
      by (simp add: unfold poll_step(1) drop_Suc take_pad del: poll_many.simps replicate_Suc take_append)
  qed
qed

lemma enqueue_step:
  assumes "registered s aid"
  shows "backlog (snd (send_command_to_agent s aid c)) aid = backlog s aid @ [c]"
    and "registered (snd (send_command_to_agent s aid c)) aid"
  using assms
  by (auto simp: registered_def send_command_to_agent_def backlog_def append_command_def
      split: option.splits)

lemma enqueue_many_backlog:
  "registered s aid \<Longrightarrow>
     backlog (enqueue_many s aid cmds) aid = backlog s aid @ cmds \<and>
     registered (enqueue_many s aid cmds) aid"
  by (induction cmds arbitrary: s) (simp_all add: enqueue_step)

text \<open>
  Claim C8. For a registered agent, a poll answers at once with the head of the backlog,
  or with the empty sentinel when the backlog is empty, and removes what it returned; on
  an empty backlog any number of polls in a row all return the sentinel; the endpoint
  appends a command at the end of the backlog; polling after enqueuing returns the pending
  commands oldest first, padded with sentinels; and two commands enqueued on an empty
  backlog come back, in that order, from two polls.
\<close>

theorem poll_fifo:
  "registered s aid \<longrightarrow>
     fst (get_agent_commands s aid t) =
       Inr (case backlog s aid of [] \<Rightarrow> None | c # cs \<Rightarrow> Some c) \<and>
     backlog (snd (get_agent_commands s aid t)) aid = tl (backlog s aid) \<and>
     (backlog s aid = [] \<longrightarrow> fst (poll_many s aid ts) = replicate (length ts) (Inr None)) \<and>
     backlog (snd (send_command_to_agent s aid c)) aid = backlog s aid @ [c] \<and>
     fst (poll_many (enqueue_many s aid cmds) aid ts) =
       map Inr (take (length ts) (map Some (backlog s aid @ cmds) @ replicate (length ts) None)) \<and>
     (backlog s aid = [] \<longrightarrow>
        fst (poll_many (enqueue_many s aid [ca, cb]) aid [ta, tb]) =
          [Inr (Some ca), Inr (Some cb)])"
proof (intro impI conjI)
  assume reg: "registered s aid"
  show "fst (get_agent_commands s aid t) =
       Inr (case backlog s aid of [] \<Rightarrow> None | c # cs \<Rightarrow> Some c)"
    using reg by (rule poll_step(1))
  show "backlog (snd (get_agent_commands s aid t)) aid = tl (backlog s aid)"
    using reg by (rule poll_step(2))
  show "backlog (snd (send_command_to_agent s aid c)) aid = backlog s aid @ [c]"
    using reg by (rule enqueue_step(1))
  show "fst (poll_many (enqueue_many s aid cmds) aid ts) =
       map Inr (take (length ts) (map Some (backlog s aid @ cmds) @ replicate (length ts) None))"
    using reg poll_many_fifo [of "enqueue_many s aid cmds" aid ts]
    by (simp add: enqueue_many_backlog)
  {
    assume "backlog s aid = []"
    then show "fst (poll_many s aid ts) = replicate (length ts) (Inr None)"
      using reg poll_many_fifo [of s aid ts] by simp
  }
  {
    assume "backlog s aid = []"
    then show "fst (poll_many (enqueue_many s aid [ca, cb]) aid [ta, tb]) =
          [Inr (Some ca), Inr (Some cb)]"
      using reg poll_many_fifo [of "enqueue_many s aid [ca, cb]" aid "[ta, tb]"]
        enqueue_many_backlog [of s aid "[ca, cb]"]
      by simp
  }
qed

lemma one_agent_registered: "registered one_agent_router ''agent-1''"
  by (simp add: one_agent_router_def register_endpoint_def register_agent_def init_router_def
      init_manager_def registered_def get_agent_def Let_def)

lemma one_agent_backlog: "backlog one_agent_router ''agent-1'' = []"
  by (simp add: one_agent_router_def register_endpoint_def register_agent_def init_router_def
      init_manager_def backlog_def Let_def)

theorem poll_fifo_witness:
  "registered one_agent_router ''agent-1'' \<and>
   backlog one_agent_router ''agent-1'' = [] \<and>
   fst (get_agent_commands one_agent_router ''agent-1'' 1) = Inr None \<and>
   fst (poll_many one_agent_router ''agent-1'' [1, 2, 3]) = [Inr None, Inr None, Inr None] \<and>
   fst (poll_many (enqueue_many one_agent_router ''agent-1'' [ping_request, run_case_request])
          ''agent-1'' [4, 5]) = [Inr (Some ping_request), Inr (Some run_case_request)]"
  using poll_fifo [of one_agent_router "''agent-1''" 1 "[1, 2, 3]" ping_request "[]"
      ping_request run_case_request 4 5]
    one_agent_registered one_agent_backlog
  by (simp add: numeral_3_eq_3)

lemma status_of_update:
  "agents m aid = Some info \<Longrightarrow> status_of (update_agent_status m aid st t) aid = Some st"
  by (simp add: status_of_def get_agent_def update_agent_status_def)

lemma queues_update [simp]:
  "command_queues (update_agent_status m aid st t) = command_queues m"
  "agent_connections (update_agent_status m aid st t) = agent_connections m"
  by (simp_all add: update_agent_status_def split: option.splits)

lemma agents_update_Some:
  "agents m aid = Some info \<Longrightarrow> \<exists>info'. agents (update_agent_status m aid st t) aid = Some info'"
  by (simp add: update_agent_status_def)

lemma dispatch_phase_exec:
  assumes "agents m aid = Some info" "command_queues m aid = Some q" "is_execution_command c"
  shows "status_of (dispatch_phase m aid c t) aid = Some BUSY"
    and "command_queues (dispatch_phase m aid c t) aid = Some (q @ [c])"
    and "agent_connections (dispatch_phase m aid c t) = agent_connections m"
    and "\<exists>info'. agents (dispatch_phase m aid c t) aid = Some info'"
  using assms
  by (simp_all add: dispatch_phase_def mark_busy_def put_command_def status_of_def get_agent_def
      update_agent_status_def)

text \<open>
  Claim C1. For a registered agent and an execution command, the status is Busy before the
  command is put on the queue and still Busy once it is queued, and a response that
  arrives in time, or is already queued, is returned with the status back to Online. When the wait times out the
  caller gets the structured timeout response and the handler sets the status to Error,
  but the \<^verbatim>\<open>finally\<close> block then runs as well: the status \<^verbatim>\<open>send_command\<close> leaves
  behind is Online, not Error.
\<close>

theorem send_command_status:
  "agents m aid = Some info \<and> command_queues m aid = Some q \<and> is_execution_command c \<longrightarrow>
     status_of (mark_busy m aid c t) aid = Some BUSY \<and>
     command_queues (mark_busy m aid c t) aid = Some q \<and>
     command_queues (dispatch_phase m aid c t) aid = Some (q @ [c]) \<and>
     status_of (dispatch_phase m aid c t) aid = Some BUSY \<and>
     (agent_connections m aid = Some [] \<longrightarrow>
        fst (send_command m aid c (Some r) t t') = r \<and>
        status_of (snd (send_command m aid c (Some r) t t')) aid = Some ONLINE) \<and>
     (agent_connections m aid = Some (r0 # rs) \<longrightarrow>
        fst (send_command m aid c arrival t t') = r0 \<and>
        status_of (snd (send_command m aid c arrival t t')) aid = Some ONLINE) \<and>
     (agent_connections m aid = Some [] \<longrightarrow>
        status_of (snd (await_phase (dispatch_phase m aid c t) aid None t')) aid = Some ERROR \<and>
        fst (send_command m aid c None t t') = timeout_response \<and>
        status_of (snd (send_command m aid c None t t')) aid = Some ONLINE)"
proof (intro impI conjI)
  assume h: "agents m aid = Some info \<and> command_queues m aid = Some q \<and> is_execution_command c"
  then have a: "agents m aid = Some info" and cq: "command_queues m aid = Some q"
    and ex: "is_execution_command c" by simp_all
  note dp = dispatch_phase_exec [OF a cq ex, of t]
  from dp(4) obtain info' where a': "agents (dispatch_phase m aid c t) aid = Some info'" ..
  show "status_of (mark_busy m aid c t) aid = Some BUSY"
    using a ex by (simp add: mark_busy_def status_of_update)
  show "command_queues (mark_busy m aid c t) aid = Some q"
    using cq by (simp add: mark_busy_def)
  show "command_queues (dispatch_phase m aid c t) aid = Some (q @ [c])" by (rule dp(2))
  show "status_of (dispatch_phase m aid c t) aid = Some BUSY" by (rule dp(1))
  {
    assume e: "agent_connections m aid = Some []"
    have w: "wait_for_response (dispatch_phase m aid c t) aid (Some r) =
        (Inr r, dispatch_phase m aid c t)"
      using e by (simp add: wait_for_response_def dp(3))
    have s: "send_command m aid c (Some r) t t' =
        (r, update_agent_status (dispatch_phase m aid c t) aid ONLINE t')"
      using cq ex by (simp add: send_command_def await_phase_def w finally_phase_def domIff)
    show "fst (send_command m aid c (Some r) t t') = r" by (simp add: s)
    show "status_of (snd (send_command m aid c (Some r) t t')) aid = Some ONLINE"
      using a' by (simp add: s status_of_update)
  }
  {
    assume e: "agent_connections m aid = Some (r0 # rs)"
    let ?d = "dispatch_phase m aid c t"
    let ?d' = "?d\<lparr>agent_connections := (agent_connections ?d)(aid \<mapsto> rs)\<rparr>"
    have w: "wait_for_response ?d aid arrival = (Inr r0, ?d')"
      using e by (simp add: wait_for_response_def dp(3))
    have s: "send_command m aid c arrival t t' = (r0, update_agent_status ?d' aid ONLINE t')"
      using cq ex by (simp add: send_command_def await_phase_def w finally_phase_def domIff)
    have "agents ?d' aid = Some info'" using a' by simp
    then show "fst (send_command m aid c arrival t t') = r0"
      and "status_of (snd (send_command m aid c arrival t t')) aid = Some ONLINE"
      by (simp_all add: s status_of_update)
  }
  {
    assume e: "agent_connections m aid = Some []"
    have w: "wait_for_response (dispatch_phase m aid c t) aid None =
        (Inl TimeoutError, dispatch_phase m aid c t)"
      using e by (simp add: wait_for_response_def dp(3))
    have aw: "await_phase (dispatch_phase m aid c t) aid None t' =
        (timeout_response, update_agent_status (dispatch_phase m aid c t) aid ERROR t')"
      by (simp add: await_phase_def w)
    from agents_update_Some [OF a'] obtain info'' where
      a'': "agents (update_agent_status (dispatch_phase m aid c t) aid ERROR t') aid = Some info''" ..
    have s: "send_command m aid c None t t' =
        (timeout_response,
         update_agent_status (update_agent_status (dispatch_phase m aid c t) aid ERROR t')
           aid ONLINE t')"
      using cq ex by (simp add: send_command_def aw finally_phase_def domIff)
    show "status_of (snd (await_phase (dispatch_phase m aid c t) aid None t')) aid = Some ERROR"
      using a' by (simp add: aw status_of_update)
    show "fst (send_command m aid c None t t') = timeout_response" by (simp add: s)
    show "status_of (snd (send_command m aid c None t t')) aid = Some ONLINE"
      using a'' by (simp add: s status_of_update)
  }
qed

lemma one_agent_manager_simps:
  "agents one_agent_manager ''agent-1'' =
     Some \<lparr>agent_id = ''agent-1'', agent_name = ''worker'', hostname = ''host-a'',
           ip_address = ''10.0.0.5'', agent_status = ONLINE, last_seen = 0,
           capabilities = [''playwright''], current_task = None, created_at = 0\<rparr>"
  "command_queues one_agent_manager ''agent-1'' = Some []"
  "agent_connections one_agent_manager ''agent-1'' = Some []"
  by (simp_all add: one_agent_manager_def one_agent_router_def register_endpoint_def
      register_agent_def init_router_def init_manager_def Let_def)

theorem send_command_status_witness:
  "status_of one_agent_manager ''agent-1'' = Some ONLINE \<and>
   is_execution_command run_case_request \<and>
   status_of (dispatch_phase one_agent_manager ''agent-1'' run_case_request 10) ''agent-1''
     = Some BUSY \<and>
   fst (send_command one_agent_manager ''agent-1'' run_case_request None 10 310)
     = timeout_response \<and>
   status_of (snd (send_command one_agent_manager ''agent-1'' run_case_request None 10 310))
     ''agent-1'' = Some ONLINE \<and>
   status_of (snd (send_command one_agent_manager ''agent-1'' run_case_request None 10 310))
     ''agent-1'' \<noteq> Some ERROR"
proof -
  have ex: "is_execution_command run_case_request"
    by (simp add: is_execution_command_def run_case_request_def)
  have s0: "status_of one_agent_manager ''agent-1'' = Some ONLINE"
    by (simp add: status_of_def get_agent_def one_agent_manager_simps)
  show ?thesis
    using send_command_status [of one_agent_manager "''agent-1''" _ "[]" run_case_request
        10 undefined 310] ex s0
    by (simp add: one_agent_manager_simps)
qed

section \<open>Properties of the keyword engine\<close>

lemma startswith_Cons: "startswith s [c] \<longleftrightarrow> (\<exists>r. s = c # r)"
  by (cases s) (simp_all add: startswith_def)

text \<open>
  Claim C5. \<^verbatim>\<open>_get_locator\<close> prefixes a locator with \<^verbatim>\<open>xpath=\<close>, which selects the
  driver's path-expression engine, exactly when the locator starts with a slash or an
  opening parenthesis, and hands every other locator to the driver unchanged, as a native
  selector. So \<^verbatim>\<open>/html/body/div\<close> and \<^verbatim>\<open>(//div)\<close> go to path-expression resolution
  and \<^verbatim>\<open>button#submit\<close> to native-selector resolution.
\<close>

theorem get_locator_routing:
  "get_locator loc =
     (if startswith loc ''/'' \<or> startswith loc ''('' then ''xpath='' @ loc else loc) \<and>
   (startswith loc ''/'' \<or> startswith loc ''('') =
     (\<exists>r. loc = CHR ''/'' # r \<or> loc = CHR ''('' # r) \<and>
   (get_locator loc = ''xpath='' @ loc) = (startswith loc ''/'' \<or> startswith loc ''('') \<and>
   (get_locator loc = loc) = (\<not> (startswith loc ''/'' \<or> startswith loc ''('')) \<and>
   get_locator ''/html/body/div'' = ''xpath=/html/body/div'' \<and>
   get_locator ''(//div)'' = ''xpath=(//div)'' \<and>
   get_locator ''button#submit'' = ''button#submit''"
proof (intro conjI)
  show "(startswith loc ''/'' \<or> startswith loc ''('') =
     (\<exists>r. loc = CHR ''/'' # r \<or> loc = CHR ''('' # r)"
    by (auto simp: startswith_Cons)
qed (simp_all add: get_locator_def startswith_def)

lemma failure_name_nonempty: "failure_screenshot_name s \<noteq> []"
  by (simp add: failure_screenshot_name_def)

lemma failure_name_relative: "\<not> startswith (failure_screenshot_name s) ''/''"
  by (simp add: failure_screenshot_name_def startswith_def)

lemma failure_path_nonempty: "failure_path eng s \<noteq> []"
  by (simp add: failure_path_def path_join_def failure_name_relative failure_name_nonempty)

lemma screenshot_failure:
  "screenshot E eng (Some (failure_screenshot_name s)) w =
     (case perform E w (PageScreenshot (failure_path eng s)) of
        (None, w') \<Rightarrow> (Inr (failure_path eng s), w')
      | (Some x, w') \<Rightarrow> (Inl (External x), w'))"
  by (simp add: screenshot_def truthy_def failure_name_nonempty failure_path_def bind_def
      ext_def ret_def split: prod.splits option.splits)

lemma execute_step_cases:
  "execute_step E eng s w =
     (case run_keyword E eng s w of
        (Inr u, w1) \<Rightarrow> (Inr (True, SUCCESS (describe s), None), w1)
      | (Inl e, w1) \<Rightarrow>
          (case perform E w1 (PageScreenshot (failure_path eng s)) of
             (None, w2) \<Rightarrow> (Inr (False, FAILURE (describe s) e, Some (failure_path eng s)), w2)
           | (Some x, w2) \<Rightarrow> (Inl (External x), w2)))"
  by (simp add: execute_step_def catch_def bind_def ret_def screenshot_failure
      split: prod.splits sum.splits option.splits)

text \<open>
  Claim C2, as amended. Whatever the step, an exception of the operation itself (unknown
  keyword, missing field, driver error) is recovered: the only exception that leaves
  \<^verbatim>\<open>execute_step\<close> is one raised by the capture of the failure screenshot. A result
  with success false carries the non-empty path of the screenshot taken after the failure
  and the message of the failure; a result with success true carries no path. When the
  driver's screenshot call never raises, \<^verbatim>\<open>execute_step\<close> returns a triple for every
  step. A step with no keyword or an unknown keyword fails as unsupported without any call
  to the driver, and yields success false with the screenshot path once the screenshot is
  taken.
\<close>

theorem execute_step_recovery:
  "(execute_step E eng s w = (Inl e, w') \<longleftrightarrow>
      (\<exists>e0 w1 x. run_keyword E eng s w = (Inl e0, w1) \<and>
         perform E w1 (PageScreenshot (failure_path eng s)) = (Some x, w') \<and>
         e = External x)) \<and>
   (execute_step E eng s w = (Inr (False, msg, p), w') \<longrightarrow>
      p = Some (failure_path eng s) \<and> failure_path eng s \<noteq> [] \<and>
      (\<exists>e0 w1. run_keyword E eng s w = (Inl e0, w1) \<and>
         perform E w1 (PageScreenshot (failure_path eng s)) = (None, w') \<and>
         msg = FAILURE (describe s) e0)) \<and>
   (execute_step E eng s w = (Inr (True, msg, p), w') \<longrightarrow>
      p = None \<and> msg = SUCCESS (describe s) \<and> run_keyword E eng s w = (Inr (), w')) \<and>
   ((\<forall>w1 path. fst (perform E w1 (PageScreenshot path)) = None) \<longrightarrow>
      (\<exists>r w2. execute_step E eng s w = (Inr r, w2))) \<and>
   (keyword s = None \<or> (\<exists>kw. keyword s = Some kw \<and> kw \<notin> set KEYWORDS) \<longrightarrow>
      run_keyword E eng s w = (Inl (UnsupportedKeyword (keyword s)), w) \<and>
      (\<forall>w2. perform E w (PageScreenshot (failure_path eng s)) = (None, w2) \<longrightarrow>
         execute_step E eng s w =
           (Inr (False, FAILURE (describe s) (UnsupportedKeyword (keyword s)),
                 Some (failure_path eng s)), w2)))"
proof (intro conjI impI)
  show "execute_step E eng s w = (Inl e, w') \<longleftrightarrow>
      (\<exists>e0 w1 x. run_keyword E eng s w = (Inl e0, w1) \<and>
         perform E w1 (PageScreenshot (failure_path eng s)) = (Some x, w') \<and>
         e = External x)"
    by (auto simp: execute_step_cases split: prod.splits sum.splits option.splits)
next
  assume "execute_step E eng s w = (Inr (False, msg, p), w')"
  then show "p = Some (failure_path eng s)"
    and "\<exists>e0 w1. run_keyword E eng s w = (Inl e0, w1) \<and>
         perform E w1 (PageScreenshot (failure_path eng s)) = (None, w') \<and>
         msg = FAILURE (describe s) e0"
    by (auto simp: execute_step_cases split: prod.splits sum.splits option.splits)
  show "failure_path eng s \<noteq> []" by (rule failure_path_nonempty)
next
  assume "execute_step E eng s w = (Inr (True, msg, p), w')"
  then show "p = None" and "msg = SUCCESS (describe s)" and "run_keyword E eng s w = (Inr (), w')"
    by (auto simp: execute_step_cases split: prod.splits sum.splits option.splits)
next
  assume ok: "\<forall>w1 path. fst (perform E w1 (PageScreenshot path)) = None"
  show "\<exists>r w2. execute_step E eng s w = (Inr r, w2)"
  proof (cases "run_keyword E eng s w")
    case (Pair r w1)
    show ?thesis
    proof (cases r)
      case (Inr u)
      with Pair show ?thesis by (auto simp: execute_step_cases)
    next
      case (Inl e0)
      obtain o2 w2 where p: "perform E w1 (PageScreenshot (failure_path eng s)) = (o2, w2)"
        by (cases "perform E w1 (PageScreenshot (failure_path eng s))")
      with ok [rule_format, of w1 "failure_path eng s"] have "o2 = None" by simp
      with Pair Inl p show ?thesis by (auto simp: execute_step_cases)
    qed
  qed
next
  assume u: "keyword s = None \<or> (\<exists>kw. keyword s = Some kw \<and> kw \<notin> set KEYWORDS)"
  then show rk: "run_keyword E eng s w = (Inl (UnsupportedKeyword (keyword s)), w)"
    by (auto simp: run_keyword_def raise_def)
  show "\<forall>w2. perform E w (PageScreenshot (failure_path eng s)) = (None, w2) \<longrightarrow>
         execute_step E eng s w =
           (Inr (False, FAILURE (describe s) (UnsupportedKeyword (keyword s)),
                 Some (failure_path eng s)), w2)"
    by (simp add: execute_step_cases rk)
qed

lemma run_keyword_known:
  "keyword s = Some kw \<Longrightarrow> kw \<in> set KEYWORDS \<Longrightarrow> getattr kw = Some (method :: 'w environment \<Rightarrow> _) \<Longrightarrow>
     run_keyword E eng s = method E eng (locator s) (step_value s)"
  by (simp add: run_keyword_def)

lemma getattr_simps:
  "getattr ''click'' = Some click"
  "getattr ''fill'' = Some fill"
  "getattr ''press'' = Some press"
  "getattr ''select_option'' = Some select_option"
  "getattr ''wait_for_selector'' = Some wait_for_selector"
  "getattr ''expect_text'' = Some expect_text"
  by (simp_all add: getattr_def)

lemma in_KEYWORDS:
  "''click'' \<in> set KEYWORDS" "''fill'' \<in> set KEYWORDS" "''press'' \<in> set KEYWORDS"
  "''select_option'' \<in> set KEYWORDS" "''wait_for_selector'' \<in> set KEYWORDS"
  "''expect_text'' \<in> set KEYWORDS"
  by (simp_all add: KEYWORDS_def)

text \<open>
  Claim C9. With a locator present, \<^verbatim>\<open>fill\<close> passes an empty-string value on to the
  driver (and the step succeeds when the driver's call does) and rejects only a missing
  value; \<^verbatim>\<open>press\<close> and \<^verbatim>\<open>select_option\<close> reject an empty-string value with the same
  missing-field error as a missing one, so the step fails. Every method that takes a
  locator (\<^verbatim>\<open>click\<close>, \<^verbatim>\<open>fill\<close>, \<^verbatim>\<open>press\<close>, \<^verbatim>\<open>select_option\<close>,
  \<^verbatim>\<open>wait_for_selector\<close>, \<^verbatim>\<open>expect_text\<close>) rejects an empty-string locator as it
  rejects a missing one. A rejected step makes no call to the driver.
\<close>

theorem empty_string_fields:
  "(keyword s = Some ''fill'' \<and> truthy (locator s) \<and> step_value s = Some [] \<longrightarrow>
      run_keyword E eng s w = ext E (Fill (get_locator (the (locator s))) []) w \<and>
      (\<forall>w'. perform E w (Fill (get_locator (the (locator s))) []) = (None, w') \<longrightarrow>
         execute_step E eng s w = (Inr (True, SUCCESS (describe s), None), w'))) \<and>
   (keyword s = Some ''fill'' \<and> step_value s = None \<longrightarrow>
      run_keyword E eng s w = (Inl (MissingField ''fill''), w)) \<and>
   ((kw = ''press'' \<or> kw = ''select_option'') \<and> keyword s = Some kw \<and>
    (step_value s = Some [] \<or> step_value s = None) \<longrightarrow>
      run_keyword E eng s w = (Inl (MissingField kw), w) \<and>
      (\<forall>w'. perform E w (PageScreenshot (failure_path eng s)) = (None, w') \<longrightarrow>
         execute_step E eng s w =
           (Inr (False, FAILURE (describe s) (MissingField kw), Some (failure_path eng s)), w'))) \<and>
   ((kw = ''click'' \<or> kw = ''fill'' \<or> kw = ''press'' \<or> kw = ''select_option'' \<or>
     kw = ''wait_for_selector'' \<or> kw = ''expect_text'') \<and> keyword s = Some kw \<and>
    (locator s = Some [] \<or> locator s = None) \<longrightarrow>
      run_keyword E eng s w = (Inl (MissingField kw), w))"
proof (intro conjI impI allI)
  assume h: "keyword s = Some ''fill'' \<and> truthy (locator s) \<and> step_value s = Some []"
  then show rk: "run_keyword E eng s w = ext E (Fill (get_locator (the (locator s))) []) w"
    by (simp add: run_keyword_known [OF _ in_KEYWORDS(2) getattr_simps(2)] fill_def)
  fix w'
  assume "perform E w (Fill (get_locator (the (locator s))) []) = (None, w')"
  then show "execute_step E eng s w = (Inr (True, SUCCESS (describe s), None), w')"
    by (simp add: execute_step_cases rk ext_def)
next
  assume "keyword s = Some ''fill'' \<and> step_value s = None"
  then show "run_keyword E eng s w = (Inl (MissingField ''fill''), w)"
    by (simp add: run_keyword_known [OF _ in_KEYWORDS(2) getattr_simps(2)] fill_def raise_def)
next
  assume h: "(kw = ''press'' \<or> kw = ''select_option'') \<and> keyword s = Some kw \<and>
    (step_value s = Some [] \<or> step_value s = None)"
  then have nt: "\<not> truthy (step_value s)" by (auto simp: truthy_def)
  from h show rk: "run_keyword E eng s w = (Inl (MissingField kw), w)"
    using nt
    by (auto simp: run_keyword_known [OF _ in_KEYWORDS(3) getattr_simps(3)]
        run_keyword_known [OF _ in_KEYWORDS(4) getattr_simps(4)] press_def select_option_def
        raise_def)
  fix w'
  assume "perform E w (PageScreenshot (failure_path eng s)) = (None, w')"
  then show "execute_step E eng s w =
           (Inr (False, FAILURE (describe s) (MissingField kw), Some (failure_path eng s)), w')"
    by (simp add: execute_step_cases rk)
next
  assume h: "(kw = ''click'' \<or> kw = ''fill'' \<or> kw = ''press'' \<or> kw = ''select_option'' \<or>
     kw = ''wait_for_selector'' \<or> kw = ''expect_text'') \<and> keyword s = Some kw \<and>
    (locator s = Some [] \<or> locator s = None)"
  then have nt: "\<not> truthy (locator s)" by (auto simp: truthy_def)
  note rk = run_keyword_known [OF _ in_KEYWORDS(1) getattr_simps(1)]
    run_keyword_known [OF _ in_KEYWORDS(2) getattr_simps(2)]
    run_keyword_known [OF _ in_KEYWORDS(3) getattr_simps(3)]
    run_keyword_known [OF _ in_KEYWORDS(4) getattr_simps(4)]
    run_keyword_known [OF _ in_KEYWORDS(5) getattr_simps(5)]
    run_keyword_known [OF _ in_KEYWORDS(6) getattr_simps(6)]
  from h have "kw = ''click'' \<or> kw = ''fill'' \<or> kw = ''press'' \<or> kw = ''select_option'' \<or>
     kw = ''wait_for_selector'' \<or> kw = ''expect_text''" and k: "keyword s = Some kw"
    by simp_all
  then show "run_keyword E eng s w = (Inl (MissingField kw), w)"
    using nt
    by (elim disjE)
      (simp_all add: rk click_def fill_def press_def select_option_def wait_for_selector_def
        expect_text_def raise_def)
qed

lemma recording_env_simps:
  "perform (recording_env fails) w c = (if fails c then Some ''driver error'' else None, w @ [c])"
  "clock (recording_env fails) w = 1700000000"
  by (simp_all add: recording_env_def)

lemma str_int_7: "str_int 7 = ''7''"
  by (simp add: str_int_def str_nat.simps [of 7] digit_def)

lemma hover_failure_path:
  "failure_path demo_engine hover_step =
     ''reports/run_1_20231114_221320/screenshots/step_7_failure.png''"
  by (simp add: failure_path_def demo_engine_def hover_step_def mk_step_def
      failure_screenshot_name_def path_join_def startswith_def str_int_7)

lemma hover_run_keyword:
  "run_keyword E eng hover_step w = (Inl (UnsupportedKeyword (Some ''hover'')), w)"
  by (simp add: run_keyword_def hover_step_def mk_step_def KEYWORDS_def raise_def)

text \<open>
  Claim C2 as stated fails: on a page whose screenshot call raises, a step with the unknown
  keyword \<^verbatim>\<open>hover\<close> makes \<^verbatim>\<open>execute_step\<close> raise instead of returning a triple.
\<close>

theorem execute_step_escapes:
  "fst (execute_step (recording_env is_screenshot) demo_engine hover_step []) =
     Inl (External ''driver error'')"
  by (simp add: execute_step_cases hover_run_keyword recording_env_simps is_screenshot_def)

theorem execute_step_recovery_witness:
  "execute_step (recording_env never) demo_engine hover_step [] =
     (Inr (False, FAILURE ''hover on #menu'' (UnsupportedKeyword (Some ''hover'')),
           Some ''reports/run_1_20231114_221320/screenshots/step_7_failure.png''),
      [PageScreenshot ''reports/run_1_20231114_221320/screenshots/step_7_failure.png'']) \<and>
   ''reports/run_1_20231114_221320/screenshots/step_7_failure.png'' \<noteq> [] \<and>
   execute_step (recording_env never) demo_engine (mk_step ''click'' (Some ''#menu'') None) [] =
     (Inr (True, SUCCESS ''click on #menu'', None), [Click ''#menu'']) \<and>
   run_keyword (recording_env never) demo_engine (mk_step ''click'' (Some ''#menu'') None) [] =
     (Inr (), [Click ''#menu'']) \<and>
   (\<forall>w path. fst (perform (recording_env never) w (PageScreenshot path)) = None) \<and>
   (\<exists>r w'. execute_step (recording_env never) demo_engine hover_step [] = (Inr r, w')) \<and>
   keyword hover_step = Some ''hover'' \<and> ''hover'' \<notin> set KEYWORDS \<and>
   run_keyword (recording_env never) demo_engine hover_step [] =
     (Inl (UnsupportedKeyword (Some ''hover'')), [])"
proof -
  let ?E = "recording_env never"
  let ?p = "''reports/run_1_20231114_221320/screenshots/step_7_failure.png''"
  have shot: "\<forall>w path. fst (perform ?E w (PageScreenshot path)) = None"
    by (simp add: recording_env_simps never_def)
  have kw: "keyword hover_step = Some ''hover''" "''hover'' \<notin> set KEYWORDS"
    by (simp_all add: hover_step_def mk_step_def KEYWORDS_def)
  have d: "describe hover_step = ''hover on #menu''"
    by (simp add: describe_def hover_step_def mk_step_def truthy_def py_str_def)
  have hover: "execute_step ?E demo_engine hover_step [] =
      (Inr (False, FAILURE ''hover on #menu'' (UnsupportedKeyword (Some ''hover'')), Some ?p),
       [PageScreenshot ?p])"
    by (simp add: execute_step_cases hover_run_keyword recording_env_simps never_def
        hover_failure_path d)
  have click: "execute_step ?E demo_engine (mk_step ''click'' (Some ''#menu'') None) [] =
      (Inr (True, SUCCESS ''click on #menu'', None), [Click ''#menu''])"
    by (simp add: execute_step_cases run_keyword_def mk_step_def KEYWORDS_def getattr_def
        click_def truthy_def ext_def recording_env_simps never_def get_locator_def startswith_def
        describe_def py_str_def)
  note thm1 = execute_step_recovery [of ?E demo_engine hover_step "[]" _ _
      "FAILURE ''hover on #menu'' (UnsupportedKeyword (Some ''hover''))" "Some ?p"]
  note thm2 = execute_step_recovery [of ?E demo_engine "mk_step ''click'' (Some ''#menu'') None"
      "[]" _ "[Click ''#menu'']" "SUCCESS ''click on #menu''" None]
  from thm2 click have rk: "run_keyword ?E demo_engine (mk_step ''click'' (Some ''#menu'') None) [] =
     (Inr (), [Click ''#menu''])"
    by simp
  from thm1 shot have ex: "\<exists>r w'. execute_step ?E demo_engine hover_step [] = (Inr r, w')"
    by blast
  from thm1 kw have un: "run_keyword ?E demo_engine hover_step [] =
     (Inl (UnsupportedKeyword (Some ''hover'')), [])"
    by simp
  show ?thesis
    using hover click rk shot ex kw un by simp
qed

lemma mk_step_simps:
  "keyword (mk_step kw loc v) = Some kw"
  "locator (mk_step kw loc v) = loc"
  "step_value (mk_step kw loc v) = v"
  "description (mk_step kw loc v) = None"
  "step_id (mk_step kw loc v) = Some 7"
  by (simp_all add: mk_step_def)

theorem empty_string_fields_witness:
  "truthy (Some ''#name'') \<and>
   run_keyword (recording_env never) demo_engine (mk_step ''fill'' (Some ''#name'') (Some [])) [] =
     (Inr (), [Fill ''#name'' []]) \<and>
   execute_step (recording_env never) demo_engine (mk_step ''fill'' (Some ''#name'') (Some [])) [] =
     (Inr (True, SUCCESS ''fill on #name'', None), [Fill ''#name'' []]) \<and>
   run_keyword (recording_env never) demo_engine (mk_step ''fill'' (Some ''#name'') None) [] =
     (Inl (MissingField ''fill''), []) \<and>
   run_keyword (recording_env never) demo_engine (mk_step ''press'' (Some ''#name'') (Some [])) [] =
     (Inl (MissingField ''press''), []) \<and>
   run_keyword (recording_env never) demo_engine (mk_step ''press'' (Some ''#name'') None) [] =
     (Inl (MissingField ''press''), []) \<and>
   run_keyword (recording_env never) demo_engine
       (mk_step ''select_option'' (Some ''#name'') (Some [])) [] =
     (Inl (MissingField ''select_option''), []) \<and>
   fst (execute_step (recording_env never) demo_engine
       (mk_step ''press'' (Some ''#name'') (Some [])) []) =
     Inr (False, FAILURE ''press on #name'' (MissingField ''press''),
          Some ''reports/run_1_20231114_221320/screenshots/step_7_failure.png'') \<and>
   run_keyword (recording_env never) demo_engine (mk_step ''fill'' (Some []) (Some ''bob'')) [] =
     (Inl (MissingField ''fill''), []) \<and>
   run_keyword (recording_env never) demo_engine (mk_step ''click'' (Some []) None) [] =
     (Inl (MissingField ''click''), [])"
proof -
  let ?E = "recording_env never"
  have t: "truthy (Some ''#name'')" by (simp add: truthy_def)
  have g: "get_locator ''#name'' = ''#name''" by (simp add: get_locator_def startswith_def)
  have fp: "failure_path demo_engine (mk_step ''press'' (Some ''#name'') (Some [])) =
      ''reports/run_1_20231114_221320/screenshots/step_7_failure.png''"
    by (simp add: failure_path_def demo_engine_def mk_step_def
      failure_screenshot_name_def path_join_def startswith_def str_int_7)
  have d: "describe (mk_step ''fill'' (Some ''#name'') (Some [])) = ''fill on #name''"
    "describe (mk_step ''press'' (Some ''#name'') (Some [])) = ''press on #name''"
    by (simp_all add: describe_def mk_step_def truthy_def py_str_def)
  note a = empty_string_fields [of "mk_step ''fill'' (Some ''#name'') (Some [])" ?E demo_engine "[]"]
  note b = empty_string_fields [of "mk_step ''fill'' (Some ''#name'') None" ?E demo_engine "[]"]
  note c = empty_string_fields [of "mk_step ''press'' (Some ''#name'') (Some [])" ?E demo_engine "[]"
      "''press''"]
  note c' = empty_string_fields [of "mk_step ''press'' (Some ''#name'') None" ?E demo_engine "[]"
      "''press''"]
  note e = empty_string_fields [of "mk_step ''select_option'' (Some ''#name'') (Some [])" ?E
      demo_engine "[]" "''select_option''"]
  note f = empty_string_fields [of "mk_step ''fill'' (Some []) (Some ''bob'')" ?E demo_engine "[]"
      "''fill''"]
  note h = empty_string_fields [of "mk_step ''click'' (Some []) None" ?E demo_engine "[]"
      "''click''"]
  show ?thesis
    using t a b c c' e f h
    by (simp add: mk_step_simps g ext_def recording_env_simps never_def d fp)
qed

section \<open>Properties of the run orchestrator\<close>

lemma bindE:
  assumes "bind m f s = (r, s')"
  obtains (raised) e where "m s = (Inl e, s')" "r = Inl e"
  | (returned) x s1 where "m s = (Inr x, s1)" "f x s1 = (r, s')"
  using assms by (auto simp: bind_def split: prod.splits sum.splits)

lemma bind_returned: "m s = (Inr x, s1) \<Longrightarrow> bind m f s = f x s1"
  by (simp add: bind_def)

lemma bind_raised: "m s = (Inl e, s1) \<Longrightarrow> bind m f s = (Inl e, s1)"
  by (simp add: bind_def)

lemma in_world_eq:
  "in_world m s = (r, s') \<longleftrightarrow> (\<exists>w'. m (world s) = (r, w') \<and> s' = s\<lparr>world := w'\<rparr>)"
  by (auto simp: in_world_def split: prod.splits)

declare step_loop.simps [simp del]

lemma step_loop_Cons:
  "step_loop E eng i (st # rest) s =
     (case execute_step E eng (st\<lparr>step_id := Some (int i + 1)\<rparr>) (world s) of
        (Inl e, w1) \<Rightarrow> (Inl e, s\<lparr>world := w1\<rparr>)
      | (Inr (ok, msg, shot), w1) \<Rightarrow>
          (if ok
           then step_loop E eng (i + 1) rest
                  (s\<lparr>world := w1,
                     run_log_entries := run_log_entries s @ [step_entry i ok msg shot]\<rparr>)
           else (Inr False,
                 s\<lparr>world := w1,
                   run_log_entries := run_log_entries s @ [step_entry i ok msg shot]\<rparr>)))"
  by (simp add: step_loop.simps bind_def in_world_def modify_def ret_def
      split: prod.splits sum.splits)

lemma step_loop_Nil: "step_loop E eng i [] s = (Inr True, s)"
  by (simp add: ret_def step_loop.simps)

lemma step_ids_Nil: "step_ids i []"
  by (simp add: step_ids_def)

lemma step_ids_Cons: "step_ids i (e # new) \<longleftrightarrow> log_step_id e = Some (int i + 1) \<and> step_ids (Suc i) new"
proof -
  have "[i..<i + length (e # new)] = i # [Suc i..<Suc i + length new]"
    by (simp add: upt_conv_Cons del: upt_Suc)
  then show ?thesis
    unfolding step_ids_def by simp
qed

lemma step_loop_log:
  "step_loop E eng i ss s = (r, s') \<Longrightarrow>
     \<exists>new. run_log_entries s' = run_log_entries s @ new \<and>
       test_status s' = test_status s \<and> report_path s' = report_path s \<and>
       log_file_path s' = log_file_path s \<and>
       step_ids i new \<and> length new \<le> length ss \<and>
       (r = Inr True \<longrightarrow> length new = length ss \<and> (\<forall>e \<in> set new. level e = ''INFO'')) \<and>
       (r = Inr False \<longrightarrow> new \<noteq> [] \<and> level (last new) = ''ERROR'' \<and>
          log_screenshot_path (last new) \<noteq> None \<and> (\<forall>e \<in> set (butlast new). level e = ''INFO'')) \<and>
       (\<forall>e \<in> set new. level e = ''INFO'' \<or> level e = ''ERROR'')"
proof (induction ss arbitrary: i s)
  case Nil
  then show ?case by (auto simp: step_loop_Nil step_ids_Nil)
next
  case (Cons st rest)
  obtain res w1 where ex: "execute_step E eng (st\<lparr>step_id := Some (int i + 1)\<rparr>) (world s) = (res, w1)"
    by (cases "execute_step E eng (st\<lparr>step_id := Some (int i + 1)\<rparr>) (world s)")
  show ?case
  proof (cases res)
    case (Inl e)
    with Cons.prems ex have "s' = s\<lparr>world := w1\<rparr>" "r = Inl e"
      by (simp_all add: step_loop_Cons)
    then show ?thesis by (simp add: step_ids_Nil)
  next
    case (Inr triple)
    obtain ok msg shot where t: "triple = (ok, msg, shot)" by (cases triple)
    let ?e = "step_entry i ok msg shot"
    let ?s1 = "s\<lparr>world := w1, run_log_entries := run_log_entries s @ [?e]\<rparr>"
    show ?thesis
    proof (cases ok)
      case False
      with Cons.prems ex Inr t have r: "r = Inr False" and s': "s' = ?s1"
        by (simp_all add: step_loop_Cons)
      from ex Inr t False have "shot \<noteq> None"
        by (auto simp: execute_step_cases split: prod.splits sum.splits option.splits)
      with False show ?thesis
        by (simp add: r s' step_ids_Cons step_ids_Nil step_entry_def)
    next
      case True
      with Cons.prems ex Inr t have "step_loop E eng (i + 1) rest ?s1 = (r, s')"
        by (simp add: step_loop_Cons)
      from Cons.IH [OF this] obtain new where
        n: "run_log_entries s' = run_log_entries ?s1 @ new"
          "test_status s' = test_status ?s1" "report_path s' = report_path ?s1"
          "log_file_path s' = log_file_path ?s1"
          "step_ids (i + 1) new" "length new \<le> length rest"
          "r = Inr True \<longrightarrow> length new = length rest \<and> (\<forall>e \<in> set new. level e = ''INFO'')"
          "r = Inr False \<longrightarrow> new \<noteq> [] \<and> level (last new) = ''ERROR'' \<and>
             log_screenshot_path (last new) \<noteq> None \<and> (\<forall>e \<in> set (butlast new). level e = ''INFO'')"
          "\<forall>e \<in> set new. level e = ''INFO'' \<or> level e = ''ERROR''"
        by blast
      have lv: "level ?e = ''INFO''" "log_step_id ?e = Some (int i + 1)"
        using True by (simp_all add: step_entry_def)
      show ?thesis
      proof (intro exI [of _ "?e # new"] conjI)
        show "run_log_entries s' = run_log_entries s @ ?e # new" using n(1) by simp
        show "step_ids i (?e # new)" using n(5) lv by (simp add: step_ids_Cons)
        show "r = Inr True \<longrightarrow> length (?e # new) = length (st # rest) \<and>
            (\<forall>e \<in> set (?e # new). level e = ''INFO'')"
          using n(7) lv by simp
        show "r = Inr False \<longrightarrow> ?e # new \<noteq> [] \<and> level (last (?e # new)) = ''ERROR'' \<and>
            log_screenshot_path (last (?e # new)) \<noteq> None \<and>
            (\<forall>e \<in> set (butlast (?e # new)). level e = ''INFO'')"
          using n(8) lv by simp
        show "\<forall>e \<in> set (?e # new). level e = ''INFO'' \<or> level e = ''ERROR''"
          using n(9) lv by simp
      qed (use n in simp_all)
    qed
  qed
qed

lemma step_loop_append:
  "step_loop E eng i pre s = (Inr True, s1) \<Longrightarrow>
     step_loop E eng i (pre @ rest) s = step_loop E eng (i + length pre) rest s1"
proof (induction pre arbitrary: i s)
  case Nil
  then show ?case by (simp add: step_loop_Nil)
next
  case (Cons st pre)
  obtain res w1 where ex: "execute_step E eng (st\<lparr>step_id := Some (int i + 1)\<rparr>) (world s) = (res, w1)"
    by (cases "execute_step E eng (st\<lparr>step_id := Some (int i + 1)\<rparr>) (world s)")
  show ?case
  proof (cases res)
    case (Inl e)
    with Cons.prems ex show ?thesis by (simp add: step_loop_Cons)
  next
    case (Inr triple)
    obtain ok msg shot where t: "triple = (ok, msg, shot)" by (cases triple)
    show ?thesis
    proof (cases ok)
      case False
      with Cons.prems ex Inr t show ?thesis by (simp add: step_loop_Cons)
    next
      case True
      let ?s1 = "s\<lparr>world := w1, run_log_entries := run_log_entries s @ [step_entry i ok msg shot]\<rparr>"
      from True Cons.prems ex Inr t have "step_loop E eng (i + 1) pre ?s1 = (Inr True, s1)"
        by (simp add: step_loop_Cons)
      from Cons.IH [OF this, of ] have
        "step_loop E eng (i + 1) (pre @ rest) ?s1 = step_loop E eng (i + 1 + length pre) rest s1" .
      with True ex Inr t show ?thesis
        using step_loop_Cons [of E eng i st "pre @ rest" s] by simp
    qed
  qed
qed

lemma keepsD:
  "keeps m \<Longrightarrow> m s = (r, s') \<Longrightarrow>
     run_log_entries s' = run_log_entries s \<and> test_status s' = test_status s"
  by (simp add: keeps_def)

lemma keeps_in_world: "keeps (in_world m)"
  by (auto simp: keeps_def in_world_eq)

lemma keeps_ret: "keeps (ret x)"
  by (simp add: keeps_def ret_def)

lemma keeps_raise: "keeps (raise e)"
  by (simp add: keeps_def raise_def)

lemma keeps_bind: "keeps m \<Longrightarrow> (\<And>x. keeps (f x)) \<Longrightarrow> keeps (bind m f)"
  unfolding keeps_def
  by (auto simp: bind_def split: prod.splits sum.splits)

lemma keeps_report_path: "keeps (modify (\<lambda>s. s\<lparr>report_path := p\<rparr>))"
  by (simp add: keeps_def modify_def)

lemma keeps_log_file_path: "keeps (modify (\<lambda>s. s\<lparr>log_file_path := p\<rparr>))"
  by (simp add: keeps_def modify_def)

lemmas keeps_intros =
  keeps_in_world keeps_ret keeps_raise keeps_bind keeps_report_path keeps_log_file_path

lemma keeps_open_page: "keeps (open_page E pd dir)"
  unfolding open_page_def by (intro keeps_intros)

lemma keeps_stop_tracing: "keeps (stop_tracing E dir)"
  unfolding stop_tracing_def by (intro keeps_intros)

lemma keeps_playwright_init: "keeps (playwright_init b)"
  by (simp add: playwright_init_def keeps_intros)

lemma keeps_prepare_run: "keeps (prepare_run E db case_id started)"
  unfolding prepare_run_def Let_def
  by (intro keeps_intros) (auto split: option.splits intro!: keeps_intros)

lemma async_withE:
  assumes "async_with aexit body s = (r, s')"
  obtains rb s1 ra where "body s = (rb, s1)" "aexit s1 = (ra, s')"
    "r = (case ra of Inl e \<Rightarrow> Inl e | Inr u \<Rightarrow> rb)"
  using assms by (auto simp: async_with_def split: prod.splits sum.splits)

lemma session_outcome:
  assumes "session E pd dir ss s = (r, s')"
  shows "test_status s' = test_status s \<and>
    ((\<exists>e. r = Inl e) \<and> run_log_entries s' = run_log_entries s \<or>
     (\<exists>eng s0 lr s1. run_log_entries s0 = run_log_entries s \<and>
        step_loop E eng 0 ss s0 = (lr, s1) \<and> run_log_entries s' = run_log_entries s1 \<and>
        ((\<exists>e. r = Inl e) \<or> (\<exists>ok. lr = Inr ok \<and> r = Inr ok))))"
  using assms unfolding session_def
proof (cases rule: bindE)
  case (raised e)
  with keepsD [OF keeps_open_page raised(1)] show ?thesis by simp
next
  case (returned eng s0)
  note k0 = keepsD [OF keeps_open_page returned(1)]
  from returned(2) show ?thesis
  proof (cases rule: bindE)
    case (raised e)
    from step_loop_log [OF raised(1)] have "test_status s' = test_status s0" by blast
    with raised k0 show ?thesis by auto
  next
    case (returned ok s1)
    from step_loop_log [OF returned(1)] have t1: "test_status s1 = test_status s0" by blast
    from returned(2) show ?thesis
    proof (cases rule: bindE)
      case (raised e)
      note k2 = keepsD [OF keeps_stop_tracing raised(1)]
      from k0 k2 t1 raised returned(1) show ?thesis by auto
    next
      case inner: (returned u s2)
      note k2 = keepsD [OF keeps_stop_tracing inner(1)]
      from inner(2) have "r = Inr ok" "s' = s2" by (simp_all add: ret_def)
      with k0 k2 t1 returned(1) show ?thesis by auto
    qed
  qed
qed

lemma try_block_outcome:
  assumes "try_block E db case_id started s = (r, s')"
  shows "(\<exists>e. r = Inl e) \<and> run_log_entries s' = run_log_entries s \<and>
           test_status s' = test_status s \<or>
     (\<exists>cd pd dir sp eng s0 lr s1.
        prepare_run E db case_id started s = (Inr (cd, pd, dir), sp) \<and>
        run_log_entries s0 = run_log_entries s \<and>
        step_loop E eng 0 (steps cd) s0 = (lr, s1) \<and> run_log_entries s' = run_log_entries s1 \<and>
        ((\<exists>e. r = Inl e) \<and> test_status s' = test_status s \<or>
         (\<exists>ok. lr = Inr ok \<and> r = Inr () \<and>
            test_status s' = (if ok then ''Passed'' else ''Failed''))))"
  using assms unfolding try_block_def
proof (cases rule: bindE)
  case (raised e)
  with keepsD [OF keeps_prepare_run raised(1)] show ?thesis by simp
next
  case (returned x sp)
  obtain cd pd dir where x: "x = (cd, pd, dir)" by (cases x)
  note kp = keepsD [OF keeps_prepare_run returned(1)]
  from returned(2) [unfolded x, simplified] show ?thesis
  proof (cases rule: bindE)
    case (raised e)
    with keepsD [OF keeps_playwright_init raised(1)] kp show ?thesis by simp
  next
    case init: (returned u si)
    note ki = keepsD [OF keeps_playwright_init init(1)]
    from init(2) show ?thesis
    proof (cases rule: bindE)
      case (raised e)
      with keepsD [OF keeps_in_world raised(1)] kp ki show ?thesis by simp
    next
      case start: (returned u2 ss)
      note ks = keepsD [OF keeps_in_world start(1)]
      from start(2) show ?thesis
      proof (cases rule: bindE)
        case (raised e)
        from raised(1) obtain rb sb ra where
          b: "session E pd dir (steps cd) ss = (rb, sb)" and
          a: "in_world (playwright_stop E) sb = (ra, s')"
          by (rule async_withE)
        note ka = keepsD [OF keeps_in_world a]
        from session_outcome [OF b] kp ki ks ka raised(2) returned(1) x
        show ?thesis by (auto; metis)
      next
        case body: (returned ok sa)
        from body(1) obtain rb sb ra where
          b: "session E pd dir (steps cd) ss = (rb, sb)" and
          a: "in_world (playwright_stop E) sb = (ra, sa)" and
          r: "Inr ok = (case ra of Inl e \<Rightarrow> Inl e | Inr u \<Rightarrow> rb)"
          by (rule async_withE)
        from r have rb: "rb = Inr ok" by (cases ra) simp_all
        note ka = keepsD [OF keeps_in_world a]
        from body(2) have fin: "r = Inr ()"
          "s' = sa\<lparr>test_status := (if ok then ''Passed'' else ''Failed'')\<rparr>"
          by (simp_all add: modify_def)
        from session_outcome [OF b] rb obtain eng s0 s1 where
          "run_log_entries s0 = run_log_entries ss" "step_loop E eng 0 (steps cd) s0 = (Inr ok, s1)"
          "run_log_entries sb = run_log_entries s1"
          by auto
        with kp ki ks ka fin returned(1) x show ?thesis
          by (intro disjI2 exI [of _ cd] exI [of _ pd] exI [of _ dir] exI [of _ sp]
              exI [of _ eng] exI [of _ s0] exI [of _ "Inr ok"] exI [of _ s1]) simp
      qed
    qed
  qed
qed

lemma step_loop_take:
  "step_loop E eng i ss s = (Inr False, s') \<Longrightarrow>
     step_loop E eng i (take (length (run_log_entries s') - length (run_log_entries s)) ss) s
       = (Inr False, s')"
proof (induction ss arbitrary: i s)
  case Nil
  then show ?case by (simp add: step_loop_Nil)
next
  case (Cons st rest)
  obtain res w1 where ex: "execute_step E eng (st\<lparr>step_id := Some (int i + 1)\<rparr>) (world s) = (res, w1)"
    by (cases "execute_step E eng (st\<lparr>step_id := Some (int i + 1)\<rparr>) (world s)")
  show ?case
  proof (cases res)
    case (Inl e)
    with Cons.prems ex show ?thesis by (simp add: step_loop_Cons)
  next
    case (Inr triple)
    obtain ok msg shot where t: "triple = (ok, msg, shot)" by (cases triple)
    let ?s1 = "s\<lparr>world := w1, run_log_entries := run_log_entries s @ [step_entry i ok msg shot]\<rparr>"
    show ?thesis
    proof (cases ok)
      case False
      with Cons.prems ex Inr t have s': "s' = ?s1" by (simp add: step_loop_Cons)
      have "length (run_log_entries s') - length (run_log_entries s) = Suc 0"
        by (simp add: s')
      then show ?thesis
        using False ex Inr t s' by (simp add: step_loop_Cons step_loop_Nil)
    next
      case True
      with Cons.prems ex Inr t have rec: "step_loop E eng (i + 1) rest ?s1 = (Inr False, s')"
        by (simp add: step_loop_Cons)
      from step_loop_log [OF rec] obtain new where
        n: "run_log_entries s' = run_log_entries ?s1 @ new" by blast
      then have len: "length (run_log_entries s') - length (run_log_entries s) =
          Suc (length (run_log_entries s') - length (run_log_entries ?s1))"
        by simp
      from Cons.IH [OF rec] True ex Inr t show ?thesis
        by (simp add: len step_loop_Cons)
    qed
  qed
qed

lemma execute_step_fields:
  "keyword a = keyword b \<Longrightarrow> locator a = locator b \<Longrightarrow> step_value a = step_value b \<Longrightarrow>
     description a = description b \<Longrightarrow> step_id a = step_id b \<Longrightarrow>
     execute_step E eng a = execute_step E eng b"
proof -
  assume h: "keyword a = keyword b" "locator a = locator b" "step_value a = step_value b"
    "description a = description b" "step_id a = step_id b"
  have "run_keyword E eng a = run_keyword E eng b"
    using h by (simp add: run_keyword_def split: option.splits)
  moreover have "describe a = describe b"
    using h by (simp add: describe_def)
  moreover have "failure_screenshot_name a = failure_screenshot_name b"
    using h by (simp add: failure_screenshot_name_def)
  ultimately show ?thesis
    by (simp add: execute_step_def)
qed

lemma step_loop_ignores_stored:
  "step_loop E eng i (map (\<lambda>st. st\<lparr>step_id := f st, step_order := g st\<rparr>) ss) =
     step_loop E eng i ss"
proof (induction ss arbitrary: i)
  case Nil
  then show ?case by (simp add: step_loop.simps)
next
  case (Cons st rest)
  have "execute_step E eng (st\<lparr>step_id := f st, step_order := g st, step_id := Some (int i + 1)\<rparr>) =
      execute_step E eng (st\<lparr>step_id := Some (int i + 1)\<rparr>)"
    by (rule execute_step_fields) simp_all
  with Cons.IH show ?case by (simp add: step_loop.simps cong: if_cong)
qed

lemma run_try_except_cases:
  "run_try_except E db case_id started w =
     (case try_block E db case_id started (initial_state w) of
        (Inr u, s) \<Rightarrow> s
      | (Inl e, s) \<Rightarrow> s\<lparr>test_status := ''Failed'',
                          run_log_entries := run_log_entries s @ [critical_entry e]\<rparr>)"
  by (simp add: run_try_except_def except_handler_def split: prod.splits sum.splits)

lemma initial_state_simps [simp]:
  "run_log_entries (initial_state w) = []"
  "test_status (initial_state w) = ''Failed''"
  "world (initial_state w) = w"
  "report_path (initial_state w) = None"
  "log_file_path (initial_state w) = None"
  by (simp_all add: initial_state_def)

lemma try_block_log_source:
  assumes "try_block E db case_id started s = (r, s')"
  shows "run_log_entries s' = run_log_entries s \<or>
     (\<exists>(cd :: case_data) eng s0 lr s1. run_log_entries s0 = run_log_entries s \<and>
        step_loop E eng 0 (steps cd) s0 = (lr, s1) \<and> run_log_entries s' = run_log_entries s1)"
  using try_block_outcome [OF assms]
  apply (elim disjE exE conjE)
    apply simp
   apply (rule disjI2, (rule exI)+, (rule conjI, assumption)+, assumption)
  apply (rule disjI2, (rule exI)+, (rule conjI, assumption)+, assumption)
  done

lemma try_block_log:
  assumes "try_block E db case_id started (initial_state w) = (r, s)"
  shows "map log_step_id (run_log_entries s) =
           map (\<lambda>j. Some (int j + 1)) [0..<length (run_log_entries s)] \<and>
         (\<forall>x \<in> set (run_log_entries s). level x = ''INFO'' \<or> level x = ''ERROR'')"
  using try_block_log_source [OF assms]
proof (elim disjE exE conjE)
  assume "run_log_entries s = run_log_entries (initial_state w)"
  then show ?thesis by simp
next
  fix cd :: case_data and eng s0 lr s1
  assume a: "run_log_entries s0 = run_log_entries (initial_state w)"
    "step_loop E eng 0 (steps cd) s0 = (lr, s1)" "run_log_entries s = run_log_entries s1"
  from step_loop_log [OF a(2)] a(1,3) show ?thesis
    by (auto simp: step_ids_def)
qed

lemmas run_defs =
  try_block_def prepare_run_def get_test_case_def get_steps_for_case_def get_project_def
  validate_project_def get_db_cursor_def playwright_init_def playwright_start_def
  playwright_stop_def async_with_def session_def open_page_def stop_tracing_def
  KeywordEngine_init_def bind_def ret_def raise_def in_world_def modify_def ext_def
  recording_env_def initial_state_def

lemmas engine_defs =
  execute_step_def catch_def run_keyword_def getattr_def KEYWORDS_def goto_def click_def
  fill_def press_def select_option_def wait_for_selector_def wait_for_url_def expect_text_def
  expect_title_def screenshot_def truthy_def describe_def py_str_def get_locator_def
  startswith_def failure_screenshot_name_def step_entry_def

lemmas eval_defs = run_defs engine_defs step_loop.simps login_steps_def case_step_def
  demo_engine_def is_click_def never_def click_env_def calm_env_def Let_def

lemmas env_defs = trace_stop_env_def launch_env_def db_down_env_def is_tracing_stop_def
  is_launch_def is_db_session_def

lemma str_int_3: "str_int 3 = ''3''"
  by (simp add: str_int_def str_nat.simps [of 3] digit_def)

text \<open>
  Claim C10. An iteration at index \<open>i\<close> hands the engine the step with its id set to
  \<open>i + 1\<close> and records the outcome under that id; so the entries the loop appends carry
  the ids 1, 2, 3, ... in order, whatever id or position the stored steps have. In every
  run the log consists of such step entries, followed by at most one critical entry.
\<close>

theorem log_step_ids:
  "step_loop E eng i (st # rest) s =
     (case execute_step E eng (st\<lparr>step_id := Some (int i + 1)\<rparr>) (world s) of
        (Inl e, w1) \<Rightarrow> (Inl e, s\<lparr>world := w1\<rparr>)
      | (Inr (ok, msg, shot), w1) \<Rightarrow>
          (if ok
           then step_loop E eng (i + 1) rest
                  (s\<lparr>world := w1,
                     run_log_entries := run_log_entries s @ [step_entry i ok msg shot]\<rparr>)
           else (Inr False,
                 s\<lparr>world := w1,
                   run_log_entries := run_log_entries s @ [step_entry i ok msg shot]\<rparr>))) \<and>
   log_step_id (step_entry i ok msg shot) = Some (int i + 1) \<and>
   (\<exists>new. run_log_entries (snd (step_loop E eng 0 ss s)) = run_log_entries s @ new \<and>
      map log_step_id new = map (\<lambda>j. Some (int j + 1)) [0..<length new]) \<and>
   step_loop E eng i (map (\<lambda>st. st\<lparr>step_id := f st, step_order := g st\<rparr>) ss) =
     step_loop E eng i ss \<and>
   (\<exists>step_part crit.
      run_log_entries (run_try_except E db case_id started w) = step_part @ crit \<and>
      map log_step_id step_part = map (\<lambda>j. Some (int j + 1)) [0..<length step_part] \<and>
      (crit = [] \<or> (\<exists>e. crit = [critical_entry e])))"
proof (intro conjI)
  show "step_loop E eng i (st # rest) s =
     (case execute_step E eng (st\<lparr>step_id := Some (int i + 1)\<rparr>) (world s) of
        (Inl e, w1) \<Rightarrow> (Inl e, s\<lparr>world := w1\<rparr>)
      | (Inr (ok, msg, shot), w1) \<Rightarrow>
          (if ok
           then step_loop E eng (i + 1) rest
                  (s\<lparr>world := w1,
                     run_log_entries := run_log_entries s @ [step_entry i ok msg shot]\<rparr>)
           else (Inr False,
                 s\<lparr>world := w1,
                   run_log_entries := run_log_entries s @ [step_entry i ok msg shot]\<rparr>)))"
    by (rule step_loop_Cons)
  show "log_step_id (step_entry i ok msg shot) = Some (int i + 1)"
    by (simp add: step_entry_def)
  obtain r s' where l: "step_loop E eng 0 ss s = (r, s')"
    by (cases "step_loop E eng 0 ss s")
  from step_loop_log [OF l] show "\<exists>new. run_log_entries (snd (step_loop E eng 0 ss s)) =
      run_log_entries s @ new \<and>
      map log_step_id new = map (\<lambda>j. Some (int j + 1)) [0..<length new]"
    by (auto simp: l step_ids_def)
  show "step_loop E eng i (map (\<lambda>st. st\<lparr>step_id := f st, step_order := g st\<rparr>) ss) =
     step_loop E eng i ss"
    by (rule step_loop_ignores_stored)
  obtain r s where t: "try_block E db case_id started (initial_state w) = (r, s)"
    by (cases "try_block E db case_id started (initial_state w)")
  note tl = try_block_log [OF t]
  show "\<exists>step_part crit.
      run_log_entries (run_try_except E db case_id started w) = step_part @ crit \<and>
      map log_step_id step_part = map (\<lambda>j. Some (int j + 1)) [0..<length step_part] \<and>
      (crit = [] \<or> (\<exists>e. crit = [critical_entry e]))"
  proof (cases r)
    case (Inl e)
    with t tl show ?thesis
      by (rule_tac exI [of _ "run_log_entries s"], rule_tac exI [of _ "[critical_entry e]"])
        (auto simp: run_try_except_cases)
  next
    case (Inr u)
    with t tl show ?thesis
      by (rule_tac exI [of _ "run_log_entries s"], rule_tac exI [of _ "[]"])
        (simp add: run_try_except_cases)
  qed
qed

lemma step_loop_first_failure:
  assumes k: "1 \<le> k" "k \<le> length ss"
    and pre: "step_loop E eng 0 (take (k - 1) ss) s = (Inr True, s1)"
    and ex: "execute_step E eng ((ss ! (k - 1))\<lparr>step_id := Some (int k)\<rparr>) (world s1) =
        (Inr (False, msg, shot), w2)"
  shows "step_loop E eng 0 (take (k - 1) ss @ ss ! (k - 1) # post) s =
      (Inr False, s1\<lparr>world := w2,
         run_log_entries := run_log_entries s1 @ [step_entry (k - 1) False msg shot]\<rparr>)"
proof -
  from k obtain j where j: "k = Suc j" by (cases k) simp_all
  from k j have len: "length (take j ss) = j" by simp
  from pre j have pre': "step_loop E eng 0 (take j ss) s = (Inr True, s1)" by simp
  from ex j have ex': "execute_step E eng ((ss ! j)\<lparr>step_id := Some (int j + 1)\<rparr>) (world s1) =
      (Inr (False, msg, shot), w2)"
    by (simp add: add.commute)
  have "step_loop E eng 0 (take j ss @ ss ! j # post) s =
      step_loop E eng (0 + length (take j ss)) (ss ! j # post) s1"
    by (rule step_loop_append [OF pre'])
  also have "\<dots> = step_loop E eng j (ss ! j # post) s1"
    by (simp only: len add_0)
  also have "\<dots> = (Inr False, s1\<lparr>world := w2,
         run_log_entries := run_log_entries s1 @ [step_entry j False msg shot]\<rparr>)"
    by (simp add: step_loop_Cons ex')
  finally show ?thesis by (simp add: j)
qed

text \<open>
  Claim C3, as amended. In the step loop, when the first \<open>k - 1\<close> steps succeed and the
  step at position \<open>k\<close> fails, the loop ends there with all-succeeded false and exactly
  \<open>k\<close> new entries, and the whole outcome, the state of the environment included, is that
  of the loop over the first \<open>k\<close> steps alone: the later steps are never invoked. When all
  steps succeed the loop adds one entry per step. In a run whose \<^verbatim>\<open>try\<close> block ends
  without an exception, the log of the run is the log of the loop and the status is Passed
  exactly when the loop reported that all steps succeeded: then there are as many entries
  as steps, all of level INFO; otherwise the last entry is the failed step's, of level
  ERROR, every earlier one is of level INFO, and the run is the run of that prefix.
\<close>

theorem fail_fast:
  "(1 \<le> k \<and> k \<le> length ss \<and> step_loop E eng 0 (take (k - 1) ss) s = (Inr True, s1) \<and>
    execute_step E eng ((ss ! (k - 1))\<lparr>step_id := Some (int k)\<rparr>) (world s1) =
      (Inr (False, msg, shot), w2) \<longrightarrow>
      step_loop E eng 0 ss s =
        (Inr False, s1\<lparr>world := w2,
           run_log_entries := run_log_entries s1 @ [step_entry (k - 1) False msg shot]\<rparr>) \<and>
      step_loop E eng 0 ss s = step_loop E eng 0 (take k ss) s \<and>
      length (run_log_entries (snd (step_loop E eng 0 ss s))) = length (run_log_entries s) + k) \<and>
   (step_loop E eng 0 ss s = (Inr True, s1) \<longrightarrow>
      length (run_log_entries s1) = length (run_log_entries s) + length ss) \<and>
   (try_block E db case_id started (initial_state w) = (Inr (), sf) \<longrightarrow>
      (\<exists>cd pd dir sp eng0 s0 ok sl.
          prepare_run E db case_id started (initial_state w) = (Inr (cd, pd, dir), sp) \<and>
          run_log_entries s0 = [] \<and> step_loop E eng0 0 (steps cd) s0 = (Inr ok, sl) \<and>
          run_log_entries (run_try_except E db case_id started w) = run_log_entries sl \<and>
          test_status (run_try_except E db case_id started w) =
            (if ok then ''Passed'' else ''Failed'') \<and>
          (ok \<longrightarrow> length (run_log_entries sl) = length (steps cd) \<and>
             (\<forall>x \<in> set (run_log_entries sl). level x = ''INFO'')) \<and>
          (\<not> ok \<longrightarrow>
             1 \<le> length (run_log_entries sl) \<and>
             length (run_log_entries sl) \<le> length (steps cd) \<and>
             level (last (run_log_entries sl)) = ''ERROR'' \<and>
             (\<forall>x \<in> set (butlast (run_log_entries sl)). level x = ''INFO'') \<and>
             step_loop E eng0 0 (take (length (run_log_entries sl)) (steps cd)) s0 =
               (Inr False, sl))))"
proof (intro conjI impI)
  assume h: "1 \<le> k \<and> k \<le> length ss \<and> step_loop E eng 0 (take (k - 1) ss) s = (Inr True, s1) \<and>
    execute_step E eng ((ss ! (k - 1))\<lparr>step_id := Some (int k)\<rparr>) (world s1) =
      (Inr (False, msg, shot), w2)"
  then have k: "1 \<le> k" "k \<le> length ss"
    and pre: "step_loop E eng 0 (take (k - 1) ss) s = (Inr True, s1)"
    and ex: "execute_step E eng ((ss ! (k - 1))\<lparr>step_id := Some (int k)\<rparr>) (world s1) =
      (Inr (False, msg, shot), w2)"
    by simp_all
  let ?s2 = "s1\<lparr>world := w2,
           run_log_entries := run_log_entries s1 @ [step_entry (k - 1) False msg shot]\<rparr>"
  from k have whole: "ss = take (k - 1) ss @ ss ! (k - 1) # drop k ss"
    using id_take_nth_drop [of "k - 1" ss] by simp
  from k have part: "take k ss = take (k - 1) ss @ ss ! (k - 1) # []"
    using take_Suc_conv_app_nth [of "k - 1" ss] by simp
  from step_loop_first_failure [OF k pre ex, of "drop k ss"] whole
  show full: "step_loop E eng 0 ss s = (Inr False, ?s2)" by simp
  from step_loop_first_failure [OF k pre ex, of "[]"] part
  have "step_loop E eng 0 (take k ss) s = (Inr False, ?s2)" by simp
  with full show "step_loop E eng 0 ss s = step_loop E eng 0 (take k ss) s" by simp
  from step_loop_log [OF pre] k
  have "length (run_log_entries s1) = length (run_log_entries s) + (k - 1)" by auto
  with k show "length (run_log_entries (snd (step_loop E eng 0 ss s))) =
      length (run_log_entries s) + k"
    by (simp add: full)
next
  assume "step_loop E eng 0 ss s = (Inr True, s1)"
  from step_loop_log [OF this]
  show "length (run_log_entries s1) = length (run_log_entries s) + length ss" by auto
next
  assume t: "try_block E db case_id started (initial_state w) = (Inr (), sf)"
  from try_block_outcome [OF t] obtain cd pd dir sp eng0 s0 ok sl where
    o: "prepare_run E db case_id started (initial_state w) = (Inr (cd, pd, dir), sp)"
      "run_log_entries s0 = []" "step_loop E eng0 0 (steps cd) s0 = (Inr ok, sl)"
      "run_log_entries sf = run_log_entries sl"
      "test_status sf = (if ok then ''Passed'' else ''Failed'')"
    by auto
  have rte: "run_try_except E db case_id started w = sf"
    by (simp add: run_try_except_cases t)
  from step_loop_log [OF o(3)] obtain new where
    n: "run_log_entries sl = run_log_entries s0 @ new" "length new \<le> length (steps cd)"
      "Inr ok = (Inr True :: exn + bool) \<longrightarrow> length new = length (steps cd) \<and>
         (\<forall>e \<in> set new. level e = ''INFO'')"
      "Inr ok = (Inr False :: exn + bool) \<longrightarrow> new \<noteq> [] \<and> level (last new) = ''ERROR'' \<and>
         (\<forall>e \<in> set (butlast new). level e = ''INFO'')"
    by blast
  from n(1) o(2) have new: "run_log_entries sl = new" by simp
  have tk: "\<not> ok \<Longrightarrow> step_loop E eng0 0 (take (length (run_log_entries sl)) (steps cd)) s0 =
      (Inr False, sl)"
    using step_loop_take [of E eng0 0 "steps cd" s0 sl] o(2,3) by simp
  show "\<exists>cd pd dir sp eng0 s0 ok sl.
          prepare_run E db case_id started (initial_state w) = (Inr (cd, pd, dir), sp) \<and>
          run_log_entries s0 = [] \<and> step_loop E eng0 0 (steps cd) s0 = (Inr ok, sl) \<and>
          run_log_entries (run_try_except E db case_id started w) = run_log_entries sl \<and>
          test_status (run_try_except E db case_id started w) =
            (if ok then ''Passed'' else ''Failed'') \<and>
          (ok \<longrightarrow> length (run_log_entries sl) = length (steps cd) \<and>
             (\<forall>x \<in> set (run_log_entries sl). level x = ''INFO'')) \<and>
          (\<not> ok \<longrightarrow>
             1 \<le> length (run_log_entries sl) \<and>
             length (run_log_entries sl) \<le> length (steps cd) \<and>
             level (last (run_log_entries sl)) = ''ERROR'' \<and>
             (\<forall>x \<in> set (butlast (run_log_entries sl)). level x = ''INFO'') \<and>
             step_loop E eng0 0 (take (length (run_log_entries sl)) (steps cd)) s0 =
               (Inr False, sl))"
  proof (intro exI conjI impI)
    show "prepare_run E db case_id started (initial_state w) = (Inr (cd, pd, dir), sp)"
      by (rule o(1))
    show "run_log_entries s0 = []" by (rule o(2))
    show "step_loop E eng0 0 (steps cd) s0 = (Inr ok, sl)" by (rule o(3))
    show "run_log_entries (run_try_except E db case_id started w) = run_log_entries sl"
      by (simp add: rte o(4))
    show "test_status (run_try_except E db case_id started w) =
        (if ok then ''Passed'' else ''Failed'')"
      by (simp add: rte o(5))
    show "ok \<Longrightarrow> length (run_log_entries sl) = length (steps cd)"
      using n(3) new by simp
    show "ok \<Longrightarrow> \<forall>x \<in> set (run_log_entries sl). level x = ''INFO''"
      using n(3) new by simp
    show "\<not> ok \<Longrightarrow> 1 \<le> length (run_log_entries sl)"
      using n(4) new by (cases new) simp_all
    show "\<not> ok \<Longrightarrow> length (run_log_entries sl) \<le> length (steps cd)"
      using n(2) new by simp
    show "\<not> ok \<Longrightarrow> level (last (run_log_entries sl)) = ''ERROR''"
      using n(4) new by simp
    show "\<not> ok \<Longrightarrow> \<forall>x \<in> set (butlast (run_log_entries sl)). level x = ''INFO''"
      using n(4) new by simp
    show "\<not> ok \<Longrightarrow> step_loop E eng0 0 (take (length (run_log_entries sl)) (steps cd)) s0 =
        (Inr False, sl)"
      by (rule tk)
  qed
qed

theorem fail_fast_witness:
  "fst (step_loop click_env demo_engine 0 (take (3 - 1) login_steps) (initial_state [])) = Inr True \<and>
   fst (execute_step click_env demo_engine ((login_steps ! (3 - 1))\<lparr>step_id := Some (int 3)\<rparr>)
          (world (snd (step_loop click_env demo_engine 0 (take (3 - 1) login_steps)
                         (initial_state []))))) =
     Inr (False, FAILURE ''click on #submit'' (External ''driver error''),
          Some ''reports/run_1_20231114_221320/screenshots/step_3_failure.png'') \<and>
   fst (step_loop click_env demo_engine 0 login_steps (initial_state [])) = Inr False \<and>
   step_loop click_env demo_engine 0 login_steps (initial_state []) =
     step_loop click_env demo_engine 0 (take 3 login_steps) (initial_state []) \<and>
   length (run_log_entries (snd (step_loop click_env demo_engine 0 login_steps (initial_state []))))
     = 3 \<and>
   world (snd (step_loop click_env demo_engine 0 login_steps (initial_state []))) =
     [PageGoto ''http://localhost:3000/login'', BodyWaitVisible, Fill ''#user'' ''bob'',
      Click ''#submit'',
      PageScreenshot ''reports/run_1_20231114_221320/screenshots/step_3_failure.png''] \<and>
   fst (step_loop calm_env demo_engine 0 login_steps (initial_state [])) = Inr True \<and>
   length (run_log_entries (snd (step_loop calm_env demo_engine 0 login_steps (initial_state []))))
     = 4 \<and>
   fst (try_block click_env demo_db 1 0 (initial_state [])) = Inr () \<and>
   map level (run_log_entries (run_try_except click_env demo_db 1 0 [])) =
     [''INFO'', ''INFO'', ''ERROR''] \<and>
   test_status (run_try_except click_env demo_db 1 0 []) = ''Failed''"
proof -
  let ?s = "initial_state [] :: (call list) run_state"
  let ?p = "''reports/run_1_20231114_221320/screenshots/step_3_failure.png''"
  let ?m = "FAILURE ''click on #submit'' (External ''driver error'')"
  let ?w1 = "[PageGoto ''http://localhost:3000/login'', BodyWaitVisible, Fill ''#user'' ''bob'']"
  let ?w2 = "?w1 @ [Click ''#submit'', PageScreenshot ?p]"
  obtain s1 where pre: "step_loop click_env demo_engine 0 (take (3 - 1) login_steps) ?s =
      (Inr True, s1)" and w1: "world s1 = ?w1" and l1: "run_log_entries s1 \<noteq> []"
    by (simp add: eval_defs)
  have ex: "execute_step click_env demo_engine ((login_steps ! (3 - 1))\<lparr>step_id := Some (int 3)\<rparr>)
      (world s1) = (Inr (False, ?m, Some ?p), ?w2)"
    by (simp add: w1 eval_defs path_join_def str_int_3)
  obtain s4 where all: "step_loop calm_env demo_engine 0 login_steps ?s = (Inr True, s4)"
    by (simp add: eval_defs)
  obtain sf where t: "try_block click_env demo_db 1 0 (initial_state []) = (Inr (), sf)"
    and lv: "map level (run_log_entries sf) = [''INFO'', ''INFO'', ''ERROR'']"
    by (simp add: eval_defs demo_db_def)
  note inst = fail_fast [of 3 login_steps click_env demo_engine ?s s1 ?m "Some ?p" ?w2
      demo_db 1 0 "[]" sf]
  note inst' = fail_fast [of 3 login_steps calm_env demo_engine ?s s4 ?m "Some ?p" ?w2
      demo_db 1 0 "[]" sf]
  have hyp: "1 \<le> (3::nat) \<and> 3 \<le> length login_steps \<and>
      step_loop click_env demo_engine 0 (take (3 - 1) login_steps) ?s = (Inr True, s1) \<and>
      execute_step click_env demo_engine ((login_steps ! (3 - 1))\<lparr>step_id := Some (int 3)\<rparr>)
        (world s1) = (Inr (False, ?m, Some ?p), ?w2)"
    using pre ex by (simp add: login_steps_def)
  note a = mp [OF inst [THEN conjunct1] hyp]
  note full = a [THEN conjunct1]
  note same = a [THEN conjunct2, THEN conjunct1]
  note len = a [THEN conjunct2, THEN conjunct2]
  note four = mp [OF inst' [THEN conjunct2, THEN conjunct1] all]
  have rte: "run_try_except click_env demo_db 1 0 [] = sf"
    by (simp add: run_try_except_cases t)
  from mp [OF inst [THEN conjunct2, THEN conjunct2] t]
  have st: "test_status (run_try_except click_env demo_db 1 0 []) = ''Failed''"
  proof (elim exE conjE)
    fix cd :: case_data and ok sl
    assume r: "run_log_entries (run_try_except click_env demo_db 1 0 []) = run_log_entries sl"
      "test_status (run_try_except click_env demo_db 1 0 []) =
         (if ok then ''Passed'' else ''Failed'')"
      "ok \<longrightarrow> length (run_log_entries sl) = length (steps cd) \<and>
         (\<forall>x \<in> set (run_log_entries sl). level x = ''INFO'')"
    from r(1) rte lv have lv': "map level (run_log_entries sl) = [''INFO'', ''INFO'', ''ERROR'']"
      by simp
    have "\<not> ok"
    proof
      assume ok
      with r(3) have "\<forall>x \<in> set (run_log_entries sl). level x = ''INFO''" by simp
      then have "\<forall>l \<in> set (map level (run_log_entries sl)). l = ''INFO''" by simp
      with lv' show False by simp
    qed
    with r(2) show ?thesis by simp
  qed
  from rte lv have lvs: "map level (run_log_entries (run_try_except click_env demo_db 1 0 [])) =
      [''INFO'', ''INFO'', ''ERROR'']" by simp
  have c1: "fst (step_loop click_env demo_engine 0 (take (3 - 1) login_steps) ?s) = Inr True"
    by (simp only: pre fst_conv)
  have c2: "fst (execute_step click_env demo_engine
        ((login_steps ! (3 - 1))\<lparr>step_id := Some (int 3)\<rparr>)
        (world (snd (step_loop click_env demo_engine 0 (take (3 - 1) login_steps) ?s)))) =
      Inr (False, ?m, Some ?p)"
    by (simp only: pre ex fst_conv snd_conv)
  have c3: "fst (step_loop click_env demo_engine 0 login_steps ?s) = Inr False"
    by (simp only: full fst_conv)
  have c5: "length (run_log_entries (snd (step_loop click_env demo_engine 0 login_steps ?s))) = 3"
    using len by simp
  have c6: "world (snd (step_loop click_env demo_engine 0 login_steps ?s)) =
      [PageGoto ''http://localhost:3000/login'', BodyWaitVisible, Fill ''#user'' ''bob'',
       Click ''#submit'', PageScreenshot ?p]"
    by (simp add: full)
  have c7: "fst (step_loop calm_env demo_engine 0 login_steps ?s) = Inr True"
    by (simp only: all fst_conv)
  have c8: "length (run_log_entries (snd (step_loop calm_env demo_engine 0 login_steps ?s))) = 4"
    unfolding all snd_conv using four by (simp add: login_steps_def)
  have c9: "fst (try_block click_env demo_db 1 0 (initial_state [])) = Inr ()"
    by (simp only: t fst_conv)
  show ?thesis
    by (intro conjI) (fact c1 c2 c3 same c5 c6 c7 c8 c9 lvs st)+
qed

text \<open>
  Claim C3 as stated fails for a run in which an exception reaches the top-level handler:
  with all four steps of the login case succeeding and the trace failing to stop, the log
  has five entries and the status is Failed.
\<close>

theorem all_steps_pass_run_fails:
  "fst (get_test_case trace_stop_env demo_db 1 []) =
     Inr (Some \<lparr>project_id = 1, name = ''login'', steps = login_steps\<rparr>) \<and>
   length login_steps = 4 \<and>
   map level (run_log_entries (run_try_except trace_stop_env demo_db 1 0 [])) =
     [''INFO'', ''INFO'', ''INFO'', ''INFO'', ''CRITICAL''] \<and>
   test_status (run_try_except trace_stop_env demo_db 1 0 []) = ''Failed''"
  by (simp add: run_try_except_cases eval_defs env_defs demo_db_def critical_entry_def)

lemma prepare_run_found:
  assumes "prepare_run E db case_id started s = (Inr (cd, pd, dir), sp)"
  shows "\<exists>w1. get_test_case E db case_id (world s) = (Inr (Some cd), w1)"
  using assms unfolding prepare_run_def
proof (cases rule: bindE)
  case (returned found s1)
  from returned(1) obtain w1 where g: "get_test_case E db case_id (world s) = (Inr found, w1)"
    by (auto simp: in_world_eq)
  show ?thesis
  proof (cases found)
    case None
    with returned(2) show ?thesis by (simp add: raise_def)
  next
    case (Some cd')
    with returned(2) have "cd' = cd"
      by (auto simp: Let_def ret_def raise_def elim!: bindE split: option.splits)
    with g Some show ?thesis by simp
  qed
qed simp

lemma ext_ok:
  "\<forall>w c. fst (perform E w c) = None \<Longrightarrow> ext E c w = (Inr (), snd (perform E w c))"
  by (simp add: ext_def split: prod.splits option.splits) (metis fst_conv option.distinct(1))

text \<open>
  Claim C4, as amended. A run of a case without steps whose \<^verbatim>\<open>try\<close> block ends without an
  exception ends with status Passed and an empty log. Whatever happens, such a run logs no
  step entry. And when the case and its valid project are in the store and no call to the
  environment raises, the \<^verbatim>\<open>try\<close> block does end without an exception, so the run is
  Passed with an empty log.
\<close>

theorem zero_step_run:
  "(get_test_case E db case_id w = (Inr (Some cd), wc) \<and> steps cd = [] \<and>
    try_block E db case_id started (initial_state w) = (Inr (), s) \<longrightarrow>
      test_status (run_try_except E db case_id started w) = ''Passed'' \<and>
      run_log_entries (run_try_except E db case_id started w) = []) \<and>
   (get_test_case E db case_id w = (Inr (Some cd), wc) \<and> steps cd = [] \<longrightarrow>
      filter (\<lambda>x. log_step_id x \<noteq> None) (run_log_entries (run_try_except E db case_id started w))
        = []) \<and>
   ((\<forall>w c. fst (perform E w c) = None) \<and> test_cases db case_id = Some row \<and>
    filter (\<lambda>s. step_case_id s = case_id) (test_steps db) = [] \<and>
    projects db (row_project_id row) = Some prow \<and>
    1 \<le> length (row_name prow) \<and> length (row_name prow) \<le> 255 \<and>
    row_browser prow \<in> set [''chromium'', ''firefox'', ''webkit''] \<longrightarrow>
      fst (try_block E db case_id started (initial_state w)) = Inr () \<and>
      test_status (run_try_except E db case_id started w) = ''Passed'' \<and>
      run_log_entries (run_try_except E db case_id started w) = [])"
proof (intro conjI impI)
  assume h: "get_test_case E db case_id w = (Inr (Some cd), wc) \<and> steps cd = [] \<and>
    try_block E db case_id started (initial_state w) = (Inr (), s)"
  then have g: "get_test_case E db case_id w = (Inr (Some cd), wc)" and e: "steps cd = []"
    and t: "try_block E db case_id started (initial_state w) = (Inr (), s)" by simp_all
  from try_block_outcome [OF t] obtain cd' pd dir sp eng s0 ok sl where
    o: "prepare_run E db case_id started (initial_state w) = (Inr (cd', pd, dir), sp)"
      "run_log_entries s0 = []" "step_loop E eng 0 (steps cd') s0 = (Inr ok, sl)"
      "run_log_entries s = run_log_entries sl"
      "test_status s = (if ok then ''Passed'' else ''Failed'')"
    by auto
  from prepare_run_found [OF o(1)] g have "cd' = cd" by simp
  with o(3) e have "ok" "sl = s0" by (simp_all add: step_loop_Nil)
  with o show "test_status (run_try_except E db case_id started w) = ''Passed''"
    and "run_log_entries (run_try_except E db case_id started w) = []"
    by (simp_all add: run_try_except_cases t)
next
  assume h: "get_test_case E db case_id w = (Inr (Some cd), wc) \<and> steps cd = []"
  obtain r s where t: "try_block E db case_id started (initial_state w) = (r, s)"
    by (cases "try_block E db case_id started (initial_state w)")
  have "run_log_entries s = []"
    using try_block_outcome [OF t]
  proof (elim disjE exE conjE)
    fix cd' pd dir sp eng s0 lr s1
    assume o: "prepare_run E db case_id started (initial_state w) = (Inr (cd', pd, dir), sp)"
      "run_log_entries s0 = run_log_entries (initial_state w)"
      "step_loop E eng 0 (steps cd') s0 = (lr, s1)" "run_log_entries s = run_log_entries s1"
    from prepare_run_found [OF o(1)] h have "cd' = cd" by simp
    with o(3) h have "s1 = s0" by (simp add: step_loop_Nil)
    with o(2,4) show "run_log_entries s = []" by simp
    then show "run_log_entries s = []" .
  qed simp
  then show "filter (\<lambda>x. log_step_id x \<noteq> None)
      (run_log_entries (run_try_except E db case_id started w)) = []"
    by (cases r) (simp_all add: run_try_except_cases t critical_entry_def)
next
  assume h: "(\<forall>w c. fst (perform E w c) = None) \<and> test_cases db case_id = Some row \<and>
    filter (\<lambda>s. step_case_id s = case_id) (test_steps db) = [] \<and>
    projects db (row_project_id row) = Some prow \<and>
    1 \<le> length (row_name prow) \<and> length (row_name prow) \<le> 255 \<and>
    row_browser prow \<in> set [''chromium'', ''firefox'', ''webkit'']"
  then have ok: "\<forall>w c. fst (perform E w c) = None" by simp
  note e = ext_ok [OF ok]
  from h have v: "validate_project prow =
      ret \<lparr>project_name = row_name prow, project_base_url = row_base_url prow,
           browser = row_browser prow,
           headless = (case row_headless prow of None \<Rightarrow> True | Some h \<Rightarrow> h)\<rparr>"
    by (auto simp: validate_project_def)
  from h have i: "playwright_init (row_browser prow) = ret ()"
    by (auto simp: playwright_init_def)
  from h have rows: "test_cases db case_id = Some row"
    "filter (\<lambda>s. step_case_id s = case_id) (test_steps db) = []"
    "projects db (row_project_id row) = Some prow" by simp_all
  have "\<exists>sf. try_block E db case_id started (initial_state w) = (Inr (), sf) \<and>
      test_status sf = ''Passed'' \<and> run_log_entries sf = []"
    by (simp add: try_block_def prepare_run_def get_test_case_def get_steps_for_case_def
        get_project_def get_db_cursor_def v i rows
        playwright_start_def playwright_stop_def async_with_def session_def open_page_def
        stop_tracing_def KeywordEngine_init_def bind_def ret_def in_world_def modify_def e
        step_loop_Nil Let_def)
  then obtain sf where sf: "try_block E db case_id started (initial_state w) = (Inr (), sf)"
    "test_status sf = ''Passed''" "run_log_entries sf = []" by blast
  then show "fst (try_block E db case_id started (initial_state w)) = Inr ()"
    and "test_status (run_try_except E db case_id started w) = ''Passed''"
    and "run_log_entries (run_try_except E db case_id started w) = []"
    by (simp_all add: run_try_except_cases)
qed

theorem zero_step_run_witness:
  "get_test_case calm_env demo_db 2 [] =
     (Inr (Some \<lparr>project_id = 1, name = ''empty'', steps = []\<rparr>), [DbSession, DbSession]) \<and>
   fst (try_block calm_env demo_db 2 0 (initial_state [])) = Inr () \<and>
   test_status (run_try_except calm_env demo_db 2 0 []) = ''Passed'' \<and>
   run_log_entries (run_try_except calm_env demo_db 2 0 []) = [] \<and>
   get_test_case launch_env demo_db 2 [] =
     (Inr (Some \<lparr>project_id = 1, name = ''empty'', steps = []\<rparr>), [DbSession, DbSession]) \<and>
   filter (\<lambda>x. log_step_id x \<noteq> None) (run_log_entries (run_try_except launch_env demo_db 2 0 []))
     = [] \<and>
   (\<forall>w c. fst (perform calm_env w c) = None) \<and>
   test_cases demo_db 2 = Some \<lparr>row_project_id = 1, row_case_name = ''empty''\<rparr> \<and>
   filter (\<lambda>s. step_case_id s = 2) (test_steps demo_db) = [] \<and>
   projects demo_db 1 =
     Some \<lparr>row_name = ''shop'', row_base_url = Some ''http://localhost:3000'',
           row_browser = ''chromium'', row_headless = None\<rparr>"
proof -
  let ?cd = "\<lparr>project_id = 1, name = ''empty'', steps = []\<rparr>"
  let ?row = "\<lparr>row_project_id = 1, row_case_name = ''empty''\<rparr>"
  let ?prow = "\<lparr>row_name = ''shop'', row_base_url = Some ''http://localhost:3000'',
      row_browser = ''chromium'', row_headless = None\<rparr>"
  have g: "get_test_case calm_env demo_db 2 [] = (Inr (Some ?cd), [DbSession, DbSession])"
    "get_test_case launch_env demo_db 2 [] = (Inr (Some ?cd), [DbSession, DbSession])"
    by (simp_all add: eval_defs env_defs demo_db_def)
  obtain sf where t: "try_block calm_env demo_db 2 0 (initial_state []) = (Inr (), sf)"
    by (simp add: eval_defs demo_db_def)
  have calm: "\<forall>w c. fst (perform calm_env w c) = None"
    by (simp add: calm_env_def recording_env_simps never_def)
  have rows: "test_cases demo_db 2 = Some ?row"
    "filter (\<lambda>s. step_case_id s = 2) (test_steps demo_db) = []"
    "projects demo_db 1 = Some ?prow"
    by (simp_all add: demo_db_def login_steps_def case_step_def)
  note i1 = zero_step_run [of calm_env demo_db 2 "[]" ?cd "[DbSession, DbSession]" 0 sf ?row ?prow]
  note i2 = zero_step_run [of launch_env demo_db 2 "[]" ?cd "[DbSession, DbSession]" 0 sf ?row ?prow]
  have h1: "get_test_case calm_env demo_db 2 [] = (Inr (Some ?cd), [DbSession, DbSession]) \<and>
      steps ?cd = [] \<and> try_block calm_env demo_db 2 0 (initial_state []) = (Inr (), sf)"
    using g t by simp
  have h2: "get_test_case launch_env demo_db 2 [] = (Inr (Some ?cd), [DbSession, DbSession]) \<and>
      steps ?cd = []"
    using g by simp
  note a = mp [OF i1 [THEN conjunct1] h1]
  note b = mp [OF i2 [THEN conjunct2, THEN conjunct1] h2]
  have c9: "fst (try_block calm_env demo_db 2 0 (initial_state [])) = Inr ()"
    by (simp only: t fst_conv)
  show ?thesis
    by (intro conjI) (fact g a [THEN conjunct1] a [THEN conjunct2] b c9 calm rows)+
qed

text \<open>
  Claim C4 as stated fails: the case and the project are found and the case has no steps,
  but the browser does not launch, and the run ends Failed with one critical entry.
\<close>

theorem zero_steps_run_fails:
  "fst (get_test_case launch_env demo_db 2 []) =
     Inr (Some \<lparr>project_id = 1, name = ''empty'', steps = []\<rparr>) \<and>
   fst (get_project launch_env demo_db 1 [DbSession, DbSession]) =
     Inr (Some \<lparr>project_name = ''shop'', project_base_url = Some ''http://localhost:3000'',
                 browser = ''chromium'', headless = True\<rparr>) \<and>
   test_status (run_try_except launch_env demo_db 2 0 []) = ''Failed'' \<and>
   map level (run_log_entries (run_try_except launch_env demo_db 2 0 [])) = [''CRITICAL'']"
  by (simp add: run_try_except_cases eval_defs env_defs demo_db_def critical_entry_def)










end
